theory Spec2Isabelle
  imports Complex_Main
begin

section \<open>Numbers, errors and numpy arithmetic\<close>

text \<open>
  The script \<^verbatim>\<open>array_optimizer.py\<close> computes with Python floats and numpy arrays of
  floats. Every sample, phase and amplitude is modelled as a \<^typ>\<open>real\<close>: the
  development verifies the arithmetic of the script, not the rounding of IEEE doubles.
  A one-dimensional numpy array is the list of its elements.

  Exceptions are values. \<open>IndexError\<close> is an index out of range, \<open>ValueError\<close> is what
  numpy raises for \<^verbatim>\<open>np.max\<close> of an empty array and for operands that cannot be
  broadcast together. \<open>SolverError\<close> is an exception raised inside a call into the
  solver's library. \<open>NotANumber\<close> is not a Python exception: dividing an all-zero
  pattern by its maximum yields NaN samples (with a warning), which have no counterpart
  among the reals, so the model stops there.
\<close>

datatype error = IndexError | ValueError | SolverError | NotANumber

text \<open>\<^verbatim>\<open>np.max(a)\<close> for a one-dimensional array: raises on the empty array.\<close>

fun np_max :: "real list \<Rightarrow> error + real" where
  "np_max [] = Inl ValueError"
| "np_max (x # xs) = Inr (fold max xs x)"

text \<open>
  \<^verbatim>\<open>a - b\<close> for one-dimensional arrays, with numpy's broadcasting: equal lengths
  subtract element-wise, an operand of length one is stretched to the other's length,
  anything else raises.
\<close>

definition np_sub :: "real list \<Rightarrow> real list \<Rightarrow> error + real list" where
  "np_sub a b =
     (if length a = length b then Inr (map2 (-) a b)
      else if length a = 1 then Inr (map (\<lambda>y. hd a - y) b)
      else if length b = 1 then Inr (map (\<lambda>x. x - hd b) a)
      else Inl ValueError)"

text \<open>\<^verbatim>\<open>np.linalg.norm(v)\<close> for a one-dimensional array: the Euclidean norm.\<close>

definition linalg_norm :: "real list \<Rightarrow> real" where
  "linalg_norm v = sqrt (sum_list (map (\<lambda>x. x\<^sup>2) v))"

text \<open>\<^verbatim>\<open>np.zeros(n)\<close>.\<close>

definition np_zeros :: "nat \<Rightarrow> real list" where
  "np_zeros n = replicate n 0"

section \<open>Normalisation of the target pattern\<close>

text \<open>
  Line 123 of \<^verbatim>\<open>optimize_antenna_array\<close>:
  \<^verbatim>\<open>target_pattern = np.abs(target_pattern) / np.max(np.abs(target_pattern))\<close>.
  The conversion of a list to an array before it (lines 117 to 120) does not change the
  elements.
\<close>

definition normalize_target :: "real list \<Rightarrow> error + real list" where
  "normalize_target target_pattern =
     (case np_max (map abs target_pattern) of
        Inl e \<Rightarrow> Inl e
      | Inr m \<Rightarrow> if m = 0 then Inl NotANumber
                else Inr (map (\<lambda>a. a / m) (map abs target_pattern)))"

section \<open>Python lists and numpy arrays in a store\<close>

text \<open>
  \<^verbatim>\<open>evalAntenna\<close> slices its argument and assigns to an element of a slice. A slice of a
  Python list is a new list holding a copy; a slice of a numpy array is a view that shares
  the buffer of the array it was cut from. The store maps an address to the elements kept
  there: the elements of a list object, or the buffer of an array. A reference is either a
  list object, or an array view \<open>ArrRef a lo hi\<close> onto the positions \<open>lo\<close> up to \<open>hi\<close>
  (exclusive) of the buffer at \<open>a\<close>. The arrays are arrays of floats (dtype
  \<^verbatim>\<open>float64\<close>), as \<^verbatim>\<open>np.concatenate\<close> of the float lists of lines 127 and 128 and the
  points of the optimizer are: an element assigned to one is stored as it is.
\<close>

record store =
  cells :: "nat \<Rightarrow> real list"
  next_addr :: nat

datatype ref = ListRef nat | ArrRef nat nat nat

fun deref :: "store \<Rightarrow> ref \<Rightarrow> real list" where
  "deref st (ListRef a) = cells st a"
| "deref st (ArrRef a lo hi) = take (hi - lo) (drop lo (cells st a))"

text \<open>A reference of a running program: allocated, and a view within its buffer.\<close>

fun valid :: "store \<Rightarrow> ref \<Rightarrow> bool" where
  "valid st (ListRef a) = (a < next_addr st)"
| "valid st (ArrRef a lo hi) = (a < next_addr st \<and> lo \<le> hi \<and> hi \<le> length (cells st a))"

definition empty_store :: store where
  "empty_store = \<lparr>cells = (\<lambda>a. []), next_addr = 0\<rparr>"

text \<open>A new list object, and \<^verbatim>\<open>np.array(xs)\<close>: a new buffer and the view of all of it.\<close>

definition new_list :: "store \<Rightarrow> real list \<Rightarrow> store \<times> ref" where
  "new_list st xs =
     (st\<lparr>cells := (cells st)(next_addr st := xs), next_addr := Suc (next_addr st)\<rparr>,
      ListRef (next_addr st))"

definition np_array :: "store \<Rightarrow> real list \<Rightarrow> store \<times> ref" where
  "np_array st xs =
     (st\<lparr>cells := (cells st)(next_addr st := xs), next_addr := Suc (next_addr st)\<rparr>,
      ArrRef (next_addr st) 0 (length xs))"

text \<open>
  \<^verbatim>\<open>v[i:j]\<close> (\<open>Some j\<close>) and \<^verbatim>\<open>v[i:]\<close> (\<open>None\<close>) for non-negative bounds, which Python
  cuts down to the length of \<open>v\<close>.
\<close>

fun slice :: "store \<Rightarrow> ref \<Rightarrow> nat \<Rightarrow> nat option \<Rightarrow> store \<times> ref" where
  "slice st (ListRef a) i j =
     new_list st (case j of None \<Rightarrow> drop i (cells st a)
                          | Some k \<Rightarrow> take (k - i) (drop i (cells st a)))"
| "slice st (ArrRef a lo hi) i j =
     (let n = hi - lo; i' = min i n;
          j' = (case j of None \<Rightarrow> n | Some k \<Rightarrow> max i' (min k n))
      in (st, ArrRef a (lo + i') (lo + j')))"

text \<open>\<^verbatim>\<open>v[i]\<close> and \<^verbatim>\<open>v[i] = x\<close> for a non-negative index.\<close>

definition getitem :: "store \<Rightarrow> ref \<Rightarrow> nat \<Rightarrow> error + real" where
  "getitem st r i =
     (if i < length (deref st r) then Inr (deref st r ! i) else Inl IndexError)"

fun setitem :: "store \<Rightarrow> ref \<Rightarrow> nat \<Rightarrow> real \<Rightarrow> error + store" where
  "setitem st (ListRef a) i v =
     (if i < length (cells st a)
      then Inr (st\<lparr>cells := (cells st)(a := (cells st a)[i := v])\<rparr>)
      else Inl IndexError)"
| "setitem st (ArrRef a lo hi) i v =
     (if i < length (deref st (ArrRef a lo hi))
      then Inr (st\<lparr>cells := (cells st)(a := (cells st a)[lo + i := v])\<rparr>)
      else Inl IndexError)"

section \<open>String formatting\<close>

text \<open>
  \<^verbatim>\<open>str(i)\<close> for a natural number, and the format \<^verbatim>\<open>f'{v:0.3f}'\<close>: the sign, then the
  magnitude rounded to three decimals, a tie going to the even neighbour. Python rounds the
  exact value of the float, which is the real number of the model.
\<close>

definition digit_char :: "nat \<Rightarrow> char" where
  "digit_char d = ''0123456789'' ! d"

fun str_nat :: "nat \<Rightarrow> string" where
  "str_nat n =
     (if n < 10 then [digit_char n] else str_nat (n div 10) @ [digit_char (n mod 10)])"

declare str_nat.simps [simp del]

definition round_half_even :: "real \<Rightarrow> int" where
  "round_half_even r =
     (let f = \<lfloor>r\<rfloor>; d = r - of_int f
      in if d < 1 / 2 then f else if 1 / 2 < d then f + 1
         else if even f then f else f + 1)"

definition format_3f :: "real \<Rightarrow> string" where
  "format_3f v =
     (let q = nat (round_half_even (\<bar>v\<bar> * 1000))
      in (if v < 0 then ''-'' else []) @ str_nat (q div 1000) @ ''.''
         @ [digit_char (q div 100 mod 10), digit_char (q div 10 mod 10),
            digit_char (q mod 10)])"

section \<open>The solver session\<close>

text \<open>
  The solver is an external collaborator. Of a session the model keeps what the script
  sends to it: the calls of \<^verbatim>\<open>hfss.odesign.SetVariableValue(name, value)\<close> in order, and
  the number of \<^verbatim>\<open>setup.analyze()\<close> solves.
\<close>

record hfss =
  set_calls :: "(string \<times> string) list"
  analyses :: nat

definition SetVariableValue :: "hfss \<Rightarrow> string \<Rightarrow> string \<Rightarrow> hfss" where
  "SetVariableValue h name val = h\<lparr>set_calls := set_calls h @ [(name, val)]\<rparr>"

definition analyze :: "hfss \<Rightarrow> hfss" where
  "analyze h = h\<lparr>analyses := Suc (analyses h)\<rparr>"

text \<open>
  What the solver answers is a parameter of the model, a function of the session for each
  call of lines 85 to 105. \<^verbatim>\<open>setup.analyze()\<close> (line 85),
  \<^verbatim>\<open>hfss.available_variations.nominal_values\<close> (line 88) and
  \<^verbatim>\<open>hfss.post.get_solution_data(...)\<close> (line 92) stand outside the \<^verbatim>\<open>try\<close>: each one
  returns (\<open>None\<close>) or raises an exception (\<open>Some e\<close>).
  \<^verbatim>\<open>far_field_data.data_magnitude("GainTotal")\<close> (line 105) stands inside it: it yields the
  gain samples, or \<open>None\<close> when it raises, which it also does when
  \<^verbatim>\<open>get_solution_data\<close> has returned no data object. The dependence on the number of
  solves lets two queries with the same variables differ.
\<close>

record solver =
  analyze_raises :: "hfss \<Rightarrow> error option"
  available_variations_raises :: "hfss \<Rightarrow> error option"
  get_solution_data_raises :: "hfss \<Rightarrow> error option"
  data_magnitude :: "hfss \<Rightarrow> real list option"

section \<open>evalAntenna\<close>

text \<open>\<^verbatim>\<open>for i in range(...)\<close> over a body that may raise.\<close>

fun for_range :: "(nat \<Rightarrow> 's \<Rightarrow> error + 's) \<Rightarrow> nat list \<Rightarrow> 's \<Rightarrow> error + 's" where
  "for_range body [] s = Inr s"
| "for_range body (i # rest) s =
     (case body i s of Inl e \<Rightarrow> Inl e | Inr s' \<Rightarrow> for_range body rest s')"

definition N :: nat where
  "N = 5"

definition eps :: real where
  "eps = 1 / 1000"

text \<open>
  Lines 80 to 82, the body of the loop:
  \<^verbatim>\<open>if abs(amps[i]) < 1e-3: amps[i] = 1e-3\<close>, then the two calls of
  \<^verbatim>\<open>SetVariableValue\<close> with \<^verbatim>\<open>phases[i]\<close> and \<^verbatim>\<open>amps[i]\<close> formatted.
\<close>

definition set_element :: "ref \<Rightarrow> ref \<Rightarrow> nat \<Rightarrow> store \<times> hfss \<Rightarrow> error + store \<times> hfss" where
  "set_element phases amps i = (\<lambda>(st, h).
     case getitem st amps i of Inl e \<Rightarrow> Inl e | Inr a \<Rightarrow>
     case (if \<bar>a\<bar> < eps then setitem st amps i eps else Inr st) of
       Inl e \<Rightarrow> Inl e
     | Inr st1 \<Rightarrow>
     case getitem st1 phases i of Inl e \<Rightarrow> Inl e | Inr p \<Rightarrow>
       let h1 = SetVariableValue h (''Phase'' @ str_nat i) (format_3f p @ ''rad'')
       in case getitem st1 amps i of Inl e \<Rightarrow> Inl e | Inr a1 \<Rightarrow>
            Inr (st1, SetVariableValue h1 (''Amp'' @ str_nat i) (format_3f a1 @ ''V'')))"

text \<open>Lines 74 to 82: the two slices and the loop over the elements.\<close>

definition set_excitation :: "store \<Rightarrow> hfss \<Rightarrow> ref \<Rightarrow> error + store \<times> hfss" where
  "set_excitation st h phases_amps =
     (let (st1, phases) = slice st phases_amps 0 (Some N);
          (st2, amps) = slice st1 phases_amps N None
      in for_range (set_element phases amps) [0..<N] (st2, h))"

text \<open>
  Lines 85 to 105: the solve, the variations, the far-field query and the reading of its
  magnitudes. An exception of one of the first three calls ends \<^verbatim>\<open>evalAntenna\<close>; the
  result is otherwise the session after the solve with what \<^verbatim>\<open>data_magnitude\<close> yields,
  \<open>None\<close> when it raises.
\<close>

definition far_field_query :: "solver \<Rightarrow> hfss \<Rightarrow> error + hfss \<times> real list option" where
  "far_field_query sv h1 =
     (case analyze_raises sv h1 of
        Some e \<Rightarrow> Inl e
      | None \<Rightarrow>
          let h2 = analyze h1
          in (case available_variations_raises sv h2 of
                Some e \<Rightarrow> Inl e
              | None \<Rightarrow>
                  (case get_solution_data_raises sv h2 of
                     Some e \<Rightarrow> Inl e
                   | None \<Rightarrow> Inr (h2, data_magnitude sv h2))))"

text \<open>
  \<^verbatim>\<open>evalAntenna(hfss, setup, N_samples, phases_amps, err_vect=None, target_pattern=None)\<close>;
  the solver \<open>sv\<close> stands for what \<^verbatim>\<open>hfss\<close> and \<^verbatim>\<open>setup\<close> answer. The \<^verbatim>\<open>except\<close> of
  line 106 replaces the magnitudes by \<^verbatim>\<open>np.zeros(N_samples)\<close> when \<^verbatim>\<open>data_magnitude\<close>
  raises. The result is the returned \<^verbatim>\<open>gain_data\<close> with the store, the session and
  \<^verbatim>\<open>err_vect\<close> as the call leaves them. \<^verbatim>\<open>N_samples\<close> is a count: the callers pass the
  length of the target pattern. \<^verbatim>\<open>target_pattern\<close> is a numpy array at the call that
  passes it.
\<close>

definition evalAntenna ::
  "solver \<Rightarrow> store \<Rightarrow> hfss \<Rightarrow> nat \<Rightarrow> ref \<Rightarrow> real list option \<Rightarrow> real list option
     \<Rightarrow> error + (real list \<times> store \<times> hfss \<times> real list option)" where
  "evalAntenna sv st h N_samples phases_amps err_vect target_pattern =
     (case set_excitation st h phases_amps of
        Inl e \<Rightarrow> Inl e
      | Inr (st3, h1) \<Rightarrow>
          (case far_field_query sv h1 of
             Inl e \<Rightarrow> Inl e
           | Inr (h2, far_field_data) \<Rightarrow>
               let gain_data = (case far_field_data of
                                  Some g \<Rightarrow> g
                                | None \<Rightarrow> np_zeros N_samples)
               in (case (err_vect, target_pattern) of
                     (Some ev, Some t) \<Rightarrow>
                       (case np_sub gain_data t of
                          Inl e \<Rightarrow> Inl e
                        | Inr d \<Rightarrow> Inr (gain_data, st3, h2, Some (ev @ [linalg_norm d])))
                   | _ \<Rightarrow> Inr (gain_data, st3, h2, err_vect))))"

section \<open>The objective function and the search\<close>

text \<open>
  Line 143, \<^verbatim>\<open>error_function\<close>, closed over the session, the trace and the normalised
  target. The point \<open>pt\<close> reaches \<^verbatim>\<open>evalAntenna\<close> as an array of its own: the optimizer
  hands a copy of its point to the objective.
\<close>

definition error_function ::
  "solver \<Rightarrow> real list \<Rightarrow> real list \<Rightarrow> hfss \<times> real list
     \<Rightarrow> error + (real \<times> hfss \<times> real list)" where
  "error_function sv target_pattern pt = (\<lambda>(h, err_vect).
     let (st, r) = np_array empty_store pt
     in case evalAntenna sv st h (length target_pattern) r
               (Some err_vect) (Some target_pattern) of
          Inl e \<Rightarrow> Inl e
        | Inr (g, st', h', ev) \<Rightarrow>
            (case np_sub g target_pattern of
               Inl e \<Rightarrow> Inl e
             | Inr d \<Rightarrow>
                 Inr (linalg_norm d, h', case ev of Some tr \<Rightarrow> tr | None \<Rightarrow> err_vect)))"

text \<open>
  \<^verbatim>\<open>scipy.optimize.minimize\<close> is external. A derivative-free search sees the objective
  only through its values, so a search is a strategy: it stops with its best point, or
  asks for the objective at a point and goes on from the value. Running a strategy calls
  \<^verbatim>\<open>error_function\<close> at each point asked for; an exception ends the run. The result
  carries \<^verbatim>\<open>result.x\<close> and \<^verbatim>\<open>result.nfev\<close>, the number of evaluations of the objective.
\<close>

datatype search = Stop "real list" | Ask "real list" "real \<Rightarrow> search"

record optimize_result =
  res_x :: "real list"
  res_nfev :: nat

primrec run_search ::
  "solver \<Rightarrow> real list \<Rightarrow> search \<Rightarrow> nat \<Rightarrow> hfss \<times> real list
     \<Rightarrow> error + (optimize_result \<times> hfss \<times> real list)" where
  "run_search sv target_pattern (Stop best) n s =
     Inr (\<lparr>res_x = best, res_nfev = n\<rparr>, s)"
| "run_search sv target_pattern (Ask pt k) n s =
     (case error_function sv target_pattern pt s of
        Inl e \<Rightarrow> Inl e
      | Inr (v, s') \<Rightarrow> run_search sv target_pattern (k v) (Suc n) s')"

section \<open>optimize\_antenna\_array\<close>

definition af_opt_amps_v :: "real list" where
  "af_opt_amps_v = [0.13804396, -0.24838753, 0.29000823, -0.25574068, 0.14721397]"

definition af_opt_phases_deg :: "real list" where
  "af_opt_phases_deg = [0.50859738, 0.33066983, 0.17692615, 0.48328732, -0.22207866]"

definition array_size :: nat where
  "array_size = 5"

text \<open>
  \<^verbatim>\<open>optimize_antenna_array(hfss, setup, target_pattern, maxiter)\<close>, with the search of
  \<^verbatim>\<open>minimize\<close> as a parameter: the strategy it follows from the start point \<^verbatim>\<open>x0\<close> with
  the iteration cap \<^verbatim>\<open>maxiter\<close>. The result is the returned triple and the session.
\<close>

definition optimize_antenna_array ::
  "solver \<Rightarrow> (real list \<Rightarrow> nat \<Rightarrow> search) \<Rightarrow> hfss \<Rightarrow> real list \<Rightarrow> nat
     \<Rightarrow> error + ((real list \<times> real list \<times> real list) \<times> hfss)" where
  "optimize_antenna_array sv minimize h target_pattern maxiter =
     (case normalize_target target_pattern of
        Inl e \<Rightarrow> Inl e
      | Inr target \<Rightarrow>
          let amplitudes = af_opt_amps_v;
              phases = af_opt_phases_deg;
              err_vect = []
          in case run_search sv target (minimize (phases @ amplitudes) maxiter) 0
                    (h, err_vect) of
               Inl e \<Rightarrow> Inl e
             | Inr (result, h', err_vect') \<Rightarrow>
                 let optimized_amplitudes = take array_size (res_x result);
                     optimized_phases = drop array_size (res_x result)
                 in Inr ((optimized_amplitudes, optimized_phases, err_vect'), h'))"

section \<open>Vocabulary of the proofs\<close>

text \<open>
  The address and the first position of a reference, the value line 80 leaves in
  \<^verbatim>\<open>amps[i]\<close>, the two calls that one round of the loop sends, when the loop can
  write through \<open>amps\<close> without touching \<open>phases\<close>, and the sessions that lines 74 to 82
  and then the solve of line 85 leave for a vector \<open>xs\<close> of \<open>N\<close> phases followed by
  amplitudes.
\<close>

fun addr_of :: "ref \<Rightarrow> nat" where
  "addr_of (ListRef a) = a"
| "addr_of (ArrRef a lo hi) = a"

fun offset :: "ref \<Rightarrow> nat" where
  "offset (ListRef a) = 0"
| "offset (ArrRef a lo hi) = lo"

definition floored :: "real \<Rightarrow> real" where
  "floored a = (if \<bar>a\<bar> < eps then eps else a)"

definition element_calls :: "nat \<Rightarrow> real \<Rightarrow> real \<Rightarrow> (string \<times> string) list" where
  "element_calls i p a =
     [(''Phase'' @ str_nat i, format_3f p @ ''rad''), (''Amp'' @ str_nat i, format_3f a @ ''V'')]"

fun separate :: "ref \<Rightarrow> ref \<Rightarrow> bool" where
  "separate (ListRef p) (ListRef a) = (p \<noteq> a)"
| "separate (ArrRef p lo hi) (ArrRef a lo' hi') = (p \<noteq> a \<or> hi \<le> lo')"
| "separate (ListRef p) (ArrRef a lo' hi') = False"
| "separate (ArrRef p lo hi) (ListRef a) = False"

definition presented_session :: "hfss \<Rightarrow> real list \<Rightarrow> hfss" where
  "presented_session h xs =
     h\<lparr>set_calls := set_calls h
        @ concat (map (\<lambda>i. element_calls i (xs ! i) (floored (xs ! (N + i)))) [0..<N])\<rparr>"

definition solved_session :: "hfss \<Rightarrow> real list \<Rightarrow> hfss" where
  "solved_session h xs = analyze (presented_session h xs)"

text \<open>The calls of lines 85, 88 and 92 return, for the vector \<open>xs\<close> from the session \<open>h\<close>.\<close>

definition outside_try_returns :: "solver \<Rightarrow> hfss \<Rightarrow> real list \<Rightarrow> bool" where
  "outside_try_returns sv h xs =
     (analyze_raises sv (presented_session h xs) = None
      \<and> available_variations_raises sv (solved_session h xs) = None
      \<and> get_solution_data_raises sv (solved_session h xs) = None)"

text \<open>
  For the examples: a session before any call, and a solver whose calls outside the
  \<^verbatim>\<open>try\<close> return, with \<open>dm\<close> for its \<^verbatim>\<open>data_magnitude\<close>.
\<close>

definition fresh_session :: hfss where
  "fresh_session = \<lparr>set_calls = [], analyses = 0\<rparr>"

definition reliable_solver :: "(hfss \<Rightarrow> real list option) \<Rightarrow> solver" where
  "reliable_solver dm =
     \<lparr>analyze_raises = (\<lambda>h. None), available_variations_raises = (\<lambda>h. None),
      get_solution_data_raises = (\<lambda>h. None), data_magnitude = dm\<rparr>"

text \<open>A solver whose \<^verbatim>\<open>get_solution_data\<close> raises.\<close>

definition failing_query_solver :: solver where
  "failing_query_solver =
     \<lparr>analyze_raises = (\<lambda>h. None), available_variations_raises = (\<lambda>h. None),
      get_solution_data_raises = (\<lambda>h. Some SolverError), data_magnitude = (\<lambda>h. None)\<rparr>"

section \<open>Facts about the numpy operations\<close>

lemma fold_max_Max: "fold max xs (x::real) = Max (set (x # xs))"
  by (rule Max.set_eq_fold [symmetric])

lemma np_max_Max: "xs \<noteq> [] \<Longrightarrow> np_max xs = Inr (Max (set xs))"
  by (cases xs) (simp_all add: fold_max_Max del: fold_simps)

lemma Max_abs_pos:
  fixes t :: "real list"
  assumes "x \<in> set t" and "x \<noteq> 0"
  shows "0 < Max (set (map abs t))" (is "0 < ?m")
proof -
  from assms(1) have "\<bar>x\<bar> \<le> ?m" by (intro Max_ge) auto
  with assms(2) show ?thesis by linarith
qed

lemma normalize_target_nonzero:
  fixes t :: "real list"
  assumes "x \<in> set t" and "x \<noteq> 0"
  shows "normalize_target t = Inr (map (\<lambda>a. \<bar>a\<bar> / Max (set (map abs t))) t)"
proof -
  from assms(1) have ne: "map abs t \<noteq> []" by auto
  from Max_abs_pos [OF assms] have "Max (set (map abs t)) \<noteq> 0" by simp
  then show ?thesis
    unfolding normalize_target_def np_max_Max [OF ne] by (simp add: comp_def)
qed

lemma normalized_Max:
  fixes t :: "real list"
  assumes "x \<in> set t" and "x \<noteq> 0"
  shows "Max (set (map abs (map (\<lambda>a. \<bar>a\<bar> / Max (set (map abs t))) t))) = 1"
    (is "Max ?S = 1")
proof -
  let ?m = "Max (set (map abs t))"
  have pos: "0 < ?m" by (rule Max_abs_pos [OF assms])
  have fin: "finite ?S" by simp
  have ne: "?S \<noteq> {}" using assms(1) by auto
  have "?m \<in> set (map abs t)"
    by (rule Max_in) (use assms(1) in auto)
  then obtain y where y: "y \<in> set t" "?m = \<bar>y\<bar>" by auto
  have "\<bar>\<bar>y\<bar> / ?m\<bar> = 1" using pos unfolding y(2) [symmetric] by simp
  with y(1) have one_in: "1 \<in> ?S" by force
  have le: "\<And>v. v \<in> ?S \<Longrightarrow> v \<le> 1"
  proof -
    fix v assume "v \<in> ?S"
    then obtain z where z: "z \<in> set t" "v = \<bar>\<bar>z\<bar> / ?m\<bar>" by auto
    have "\<bar>z\<bar> \<le> ?m" by (rule Max_ge) (use z(1) in auto)
    with pos z(2) show "v \<le> 1" by simp
  qed
  show ?thesis
    by (rule Max_eqI [OF fin le one_in])
qed

section \<open>Facts about the store and the loop\<close>

lemma getitem_cell:
  "valid st r \<Longrightarrow>
   getitem st r i =
     (if i < length (deref st r) then Inr (cells st (addr_of r) ! (offset r + i))
      else Inl IndexError)"
  by (cases r) (auto simp: getitem_def)

lemma setitem_cell:
  "setitem st r i v =
     (if i < length (deref st r)
      then Inr (st\<lparr>cells := (cells st)(addr_of r := (cells st (addr_of r))[offset r + i := v])\<rparr>)
      else Inl IndexError)"
  by (cases r) auto

lemma deref_written:
  "valid st r \<Longrightarrow>
   deref (st\<lparr>cells := (cells st)(addr_of r := (cells st (addr_of r))[offset r + i := v])\<rparr>) r
     = (deref st r)[i := v]"
  by (cases r) (auto simp: drop_update_swap take_update_swap)

lemma deref_frame:
  "valid st p \<Longrightarrow> separate p r \<Longrightarrow> i < length (deref st r) \<Longrightarrow>
   deref (st\<lparr>cells := (cells st)(addr_of r := (cells st (addr_of r))[offset r + i := v])\<rparr>) p
     = deref st p"
  by (cases p; cases r) (auto simp: drop_update_swap take_update_cancel)

lemma valid_written:
  "valid (st\<lparr>cells := (cells st)(a := (cells st a)[k := v])\<rparr>) r = valid st r"
  by (cases r) auto

lemma set_element_step:
  assumes vp: "valid st phases" and va: "valid st amps" and sep: "separate phases amps"
    and ip: "i < length (deref st phases)" and ia: "i < length (deref st amps)"
  shows "set_element phases amps i (st, h) =
     Inr (st\<lparr>cells := (cells st)(addr_of amps :=
            (cells st (addr_of amps))[offset amps + i := floored (deref st amps ! i)])\<rparr>,
          h\<lparr>set_calls := set_calls h
                @ element_calls i (deref st phases ! i) (floored (deref st amps ! i))\<rparr>)"
proof -
  let ?buf = "cells st (addr_of amps)"
  let ?k = "offset amps + i"
  let ?st1 = "st\<lparr>cells := (cells st)(addr_of amps := ?buf[?k := floored (deref st amps ! i)])\<rparr>"
  have a: "getitem st amps i = Inr (deref st amps ! i)"
    using ia by (simp add: getitem_def)
  have cell: "?buf ! ?k = deref st amps ! i"
    using getitem_cell [OF va, of i] ia a by simp
  have st1: "(if \<bar>deref st amps ! i\<bar> < eps then setitem st amps i eps else Inr st) = Inr ?st1"
  proof (cases "\<bar>deref st amps ! i\<bar> < eps")
    case True
    then show ?thesis using ia by (simp add: setitem_cell floored_def)
  next
    case False
    then have "?buf[?k := floored (deref st amps ! i)] = ?buf"
      using cell list_update_id [of ?buf ?k] by (simp add: floored_def)
    with False show ?thesis by simp
  qed
  have dp: "deref ?st1 phases = deref st phases"
    by (rule deref_frame [OF vp sep ia])
  have da: "deref ?st1 amps = (deref st amps)[i := floored (deref st amps ! i)]"
    by (rule deref_written [OF va])
  have p: "getitem ?st1 phases i = Inr (deref st phases ! i)"
    using ip by (simp only: getitem_def dp) simp
  have a1: "getitem ?st1 amps i = Inr (floored (deref st amps ! i))"
    using ia by (simp only: getitem_def da) simp
  show ?thesis
    unfolding set_element_def
    by (simp only: prod.case a st1 p a1 sum.case Let_def SetVariableValue_def element_calls_def)
       simp
qed

lemma for_range_set_element:
  assumes "valid st phases" and "valid st amps" and "separate phases amps"
    and "\<forall>i \<in> set ixs. i < length (deref st phases) \<and> i < length (deref st amps)"
    and "distinct ixs"
  shows "for_range (set_element phases amps) ixs (st, h) =
     Inr (st\<lparr>cells := (cells st)(addr_of amps :=
            fold (\<lambda>i buf. buf[offset amps + i := floored (buf ! (offset amps + i))]) ixs
              (cells st (addr_of amps)))\<rparr>,
          h\<lparr>set_calls := set_calls h
                @ concat (map (\<lambda>i. element_calls i (deref st phases ! i)
                                     (floored (deref st amps ! i))) ixs)\<rparr>)"
  using assms
proof (induction ixs arbitrary: st h)
  case Nil
  then show ?case by simp
next
  case (Cons i rest)
  let ?buf = "cells st (addr_of amps)"
  let ?k = "offset amps + i"
  let ?st1 = "st\<lparr>cells := (cells st)(addr_of amps := ?buf[?k := floored (deref st amps ! i)])\<rparr>"
  let ?h1 = "h\<lparr>set_calls := set_calls h
                @ element_calls i (deref st phases ! i) (floored (deref st amps ! i))\<rparr>"
  from Cons.prems have ip: "i < length (deref st phases)" and ia: "i < length (deref st amps)"
    by simp_all
  have step: "set_element phases amps i (st, h) = Inr (?st1, ?h1)"
    by (rule set_element_step [OF Cons.prems(1,2,3) ip ia])
  have cell: "?buf ! ?k = deref st amps ! i"
    using getitem_cell [OF Cons.prems(2), of i] ia by (simp add: getitem_def)
  have dp: "deref ?st1 phases = deref st phases"
    by (rule deref_frame [OF Cons.prems(1,3) ia])
  have da: "deref ?st1 amps = (deref st amps)[i := floored (deref st amps ! i)]"
    by (rule deref_written [OF Cons.prems(2)])
  have v1: "valid ?st1 phases" "valid ?st1 amps"
    using Cons.prems(1,2) by (simp_all only: valid_written)
  have rng: "\<forall>j \<in> set rest. j < length (deref ?st1 phases) \<and> j < length (deref ?st1 amps)"
    using Cons.prems(4) by (simp add: dp da)
  have dist: "distinct rest" and notin: "i \<notin> set rest"
    using Cons.prems(5) by simp_all
  have calls: "map (\<lambda>j. element_calls j (deref ?st1 phases ! j) (floored (deref ?st1 amps ! j))) rest
      = map (\<lambda>j. element_calls j (deref st phases ! j) (floored (deref st amps ! j))) rest"
  proof (rule map_cong [OF refl])
    fix j assume "j \<in> set rest"
    with notin have "j \<noteq> i" by auto
    then show "element_calls j (deref ?st1 phases ! j) (floored (deref ?st1 amps ! j))
        = element_calls j (deref st phases ! j) (floored (deref st amps ! j))"
      by (simp add: dp da)
  qed
  have ih: "for_range (set_element phases amps) rest (?st1, ?h1) =
     Inr (?st1\<lparr>cells := (cells ?st1)(addr_of amps :=
            fold (\<lambda>i buf. buf[offset amps + i := floored (buf ! (offset amps + i))]) rest
              (cells ?st1 (addr_of amps)))\<rparr>,
          ?h1\<lparr>set_calls := set_calls ?h1
                @ concat (map (\<lambda>i. element_calls i (deref ?st1 phases ! i)
                                     (floored (deref ?st1 amps ! i))) rest)\<rparr>)"
    by (rule Cons.IH [OF v1 Cons.prems(3) rng dist])
  have "for_range (set_element phases amps) (i # rest) (st, h)
      = for_range (set_element phases amps) rest (?st1, ?h1)"
    by (simp add: step)
  have fold_eq: "fold (\<lambda>i buf. buf[offset amps + i := floored (buf ! (offset amps + i))])
        (i # rest) ?buf
      = fold (\<lambda>i buf. buf[offset amps + i := floored (buf ! (offset amps + i))]) rest
          (?buf[?k := floored (deref st amps ! i)])"
    by (simp add: cell)
  have main: "for_range (set_element phases amps) (i # rest) (st, h)
      = Inr (st\<lparr>cells := (cells st)(addr_of amps :=
            fold (\<lambda>i buf. buf[offset amps + i := floored (buf ! (offset amps + i))]) rest
              (?buf[?k := floored (deref st amps ! i)]))\<rparr>,
          h\<lparr>set_calls := set_calls h
                @ concat (map (\<lambda>i. element_calls i (deref st phases ! i)
                                     (floored (deref st amps ! i))) (i # rest))\<rparr>)"
    by (simp add: step ih calls)
  show ?case
    unfolding fold_eq by (rule main)
qed

lemma fold_floor_upt:
  "k + n \<le> length buf \<Longrightarrow>
   fold (\<lambda>i b. b[k + i := floored (b ! (k + i))]) [0..<n] buf
     = take k buf @ map floored (take n (drop k buf)) @ drop (k + n) buf"
proof (induction n)
  case 0
  then show ?case by simp
next
  case (Suc n)
  let ?b = "take k buf @ map floored (take n (drop k buf)) @ drop (k + n) buf"
  from Suc.prems have len: "k + n < length buf" by simp
  have at: "?b ! (k + n) = buf ! (k + n)"
    using len by (simp add: nth_append)
  have "?b[k + n := floored (buf ! (k + n))]
      = take k buf @ map floored (take n (drop k buf)) @ (drop (k + n) buf)[0 := floored (buf ! (k + n))]"
    using len by (simp add: list_update_append)
  also have "(drop (k + n) buf)[0 := floored (buf ! (k + n))]
      = floored (buf ! (k + n)) # drop (k + Suc n) buf"
    using len by (simp add: Cons_nth_drop_Suc [symmetric])
  also have "take k buf @ map floored (take n (drop k buf)) @ floored (buf ! (k + n)) # drop (k + Suc n) buf
      = take k buf @ map floored (take (Suc n) (drop k buf)) @ drop (k + Suc n) buf"
    using len by (simp add: take_Suc_conv_app_nth)
  finally show ?case
    using Suc.IH len by (simp add: at)
qed

lemma set_excitation_array:
  assumes v: "valid st (ArrRef a lo hi)" and len: "2 * N \<le> hi - lo"
  shows "set_excitation st h (ArrRef a lo hi) =
     Inr (st\<lparr>cells := (cells st)(a :=
            take (lo + N) (cells st a)
            @ map floored (take N (drop (lo + N) (cells st a)))
            @ drop (lo + N + N) (cells st a))\<rparr>,
          presented_session h (deref st (ArrRef a lo hi)))"
proof -
  let ?p = "ArrRef a lo (lo + N)" and ?q = "ArrRef a (lo + N) hi"
  let ?xs = "deref st (ArrRef a lo hi)"
  from v len have bounds: "lo + 2 * N \<le> hi" "hi \<le> length (cells st a)" "a < next_addr st"
    by auto
  have s1: "slice st (ArrRef a lo hi) 0 (Some N) = (st, ?p)"
    using len by (simp add: Let_def min_def)
  have s2: "slice st (ArrRef a lo hi) N None = (st, ?q)"
    using len bounds by (simp add: Let_def min_def)
  have vp: "valid st ?p" and vq: "valid st ?q" and sep: "separate ?p ?q"
    using bounds by simp_all
  have dp: "deref st ?p = take N ?xs"
    using bounds by (simp add: min_def)
  have dq: "deref st ?q = drop N ?xs"
    using bounds by (simp add: drop_take add.commute)
  have lx: "2 * N \<le> length ?xs"
    using bounds by simp
  have rng: "\<forall>i \<in> set [0..<N]. i < length (deref st ?p) \<and> i < length (deref st ?q)"
    unfolding dp dq using lx by auto
  have calls: "map (\<lambda>i. element_calls i (deref st ?p ! i) (floored (deref st ?q ! i))) [0..<N]
      = map (\<lambda>i. element_calls i (?xs ! i) (floored (?xs ! (N + i)))) [0..<N]"
    unfolding dp dq using lx by (intro map_cong [OF refl]) simp
  have fold: "fold (\<lambda>i b. b[lo + N + i := floored (b ! (lo + N + i))]) [0..<N] (cells st a)
      = take (lo + N) (cells st a) @ map floored (take N (drop (lo + N) (cells st a)))
        @ drop (lo + N + N) (cells st a)"
    by (rule fold_floor_upt) (use bounds in simp)
  have loop: "for_range (set_element ?p ?q) [0..<N] (st, h) =
     Inr (st\<lparr>cells := (cells st)(a :=
            take (lo + N) (cells st a) @ map floored (take N (drop (lo + N) (cells st a)))
            @ drop (lo + N + N) (cells st a))\<rparr>,
          h\<lparr>set_calls := set_calls h
            @ concat (map (\<lambda>i. element_calls i (?xs ! i) (floored (?xs ! (N + i)))) [0..<N])\<rparr>)"
    using for_range_set_element [OF vp vq sep rng distinct_upt, of h]
    unfolding calls by (simp add: fold)
  show ?thesis
    unfolding set_excitation_def s1 s2 Let_def prod.case loop presented_session_def ..
qed

lemma set_excitation_list:
  assumes v: "valid st (ListRef a)" and len: "2 * N \<le> length (cells st a)"
  shows "set_excitation st h (ListRef a) =
     Inr (st\<lparr>cells := (cells st)
            (next_addr st := take N (cells st a),
             Suc (next_addr st) := map floored (take N (drop N (cells st a)))
                                    @ drop (N + N) (cells st a)),
            next_addr := Suc (Suc (next_addr st))\<rparr>,
          presented_session h (cells st a))"
proof -
  let ?xs = "cells st a"
  let ?b = "next_addr st"
  let ?st1 = "st\<lparr>cells := (cells st)(?b := take N ?xs), next_addr := Suc ?b\<rparr>"
  let ?st2 = "?st1\<lparr>cells := (cells ?st1)(Suc ?b := drop N ?xs), next_addr := Suc (Suc ?b)\<rparr>"
  let ?p = "ListRef ?b" and ?q = "ListRef (Suc ?b)"
  from v have a: "a < ?b" by simp
  have s1: "slice st (ListRef a) 0 (Some N) = (?st1, ?p)"
    by (simp add: new_list_def)
  have s2: "slice ?st1 (ListRef a) N None = (?st2, ?q)"
    using a by (simp add: new_list_def)
  have vp: "valid ?st2 ?p" and vq: "valid ?st2 ?q" and sep: "separate ?p ?q"
    by simp_all
  have dp: "deref ?st2 ?p = take N ?xs" and dq: "deref ?st2 ?q = drop N ?xs"
    by simp_all
  have rng: "\<forall>i \<in> set [0..<N]. i < length (deref ?st2 ?p) \<and> i < length (deref ?st2 ?q)"
    unfolding dp dq using len by auto
  have calls: "map (\<lambda>i. element_calls i (deref ?st2 ?p ! i) (floored (deref ?st2 ?q ! i))) [0..<N]
      = map (\<lambda>i. element_calls i (?xs ! i) (floored (?xs ! (N + i)))) [0..<N]"
    unfolding dp dq using len by (intro map_cong [OF refl]) simp
  have fold: "fold (\<lambda>i b. b[i := floored (b ! i)]) [0..<N] (drop N ?xs)
      = map floored (take N (drop N ?xs)) @ drop (N + N) ?xs"
    using fold_floor_upt [of 0 N "drop N ?xs"] len by simp
  have loop: "for_range (set_element ?p ?q) [0..<N] (?st2, h) =
     Inr (?st2\<lparr>cells := (cells ?st2)(Suc ?b :=
            map floored (take N (drop N ?xs)) @ drop (N + N) ?xs)\<rparr>,
          h\<lparr>set_calls := set_calls h
            @ concat (map (\<lambda>i. element_calls i (?xs ! i) (floored (?xs ! (N + i)))) [0..<N])\<rparr>)"
    using for_range_set_element [OF vp vq sep rng distinct_upt, of h] fold
    unfolding calls by simp
  show ?thesis
    unfolding set_excitation_def s1 s2 Let_def prod.case loop presented_session_def
    by simp
qed

lemma deref_floored_array:
  assumes "lo + 2 * N \<le> hi" and "hi \<le> length buf"
  shows "take (hi - lo) (drop lo (take (lo + N) buf @ map floored (take N (drop (lo + N) buf))
            @ drop (lo + N + N) buf))
     = take N (take (hi - lo) (drop lo buf))
       @ map floored (take N (drop N (take (hi - lo) (drop lo buf))))
       @ drop (2 * N) (take (hi - lo) (drop lo buf))"
proof -
  let ?Z = "drop lo buf"
  let ?X = "map floored (take N (drop (lo + N) buf))"
  let ?Y = "drop (lo + N + N) buf"
  from assms have n: "lo + N \<le> length buf" "lo + N + N \<le> length buf" "N + N \<le> hi - lo"
    by simp_all
  have l1: "drop lo (take (lo + N) buf @ ?X @ ?Y) = take N ?Z @ ?X @ ?Y"
    using n by (simp add: drop_take)
  have lenP: "length (take N ?Z) = N" and lenX: "length ?X = N"
    using n by simp_all
  have l2: "take (hi - lo) (take N ?Z @ ?X @ ?Y) = take N ?Z @ ?X @ take (hi - lo - N - N) ?Y"
    using n by (simp only: take_append lenP lenX) simp
  have r1: "take N (take (hi - lo) ?Z) = take N ?Z"
    using n by (simp add: min_def)
  have r2: "take N (drop N (take (hi - lo) ?Z)) = take N (drop (lo + N) buf)"
    using n by (simp add: drop_take min_def add.commute)
  have r3: "drop (2 * N) (take (hi - lo) ?Z) = take (hi - lo - N - N) ?Y"
    using n by (simp add: drop_take add.commute mult_2 add.left_commute)
  show ?thesis
    unfolding l1 l2 r1 r2 r3 ..
qed

section \<open>Facts about evalAntenna and the objective\<close>

lemma np_sub_same_length:
  "length a = length b \<Longrightarrow> np_sub a b = Inr (map2 (-) a b)"
  by (simp add: np_sub_def)

lemma linalg_norm_zeros_minus:
  "linalg_norm (map2 (-) (np_zeros (length t)) t) = linalg_norm t"
proof -
  have "map2 (-) (replicate (length t) 0) t = map uminus t"
    by (induction t) simp_all
  then show ?thesis
    by (simp add: linalg_norm_def np_zeros_def comp_def)
qed

lemma linalg_norm_diff:
  assumes "length g = length t"
  shows "linalg_norm (map2 (-) g t) = sqrt (\<Sum>i<length t. (g ! i - t ! i)\<^sup>2)"
proof -
  have "map (\<lambda>v. v\<^sup>2) (map2 (-) g t) = map (\<lambda>i. (g ! i - t ! i)\<^sup>2) [0..<length t]"
    using assms by (intro nth_equalityI) simp_all
  then show ?thesis
    by (simp add: linalg_norm_def sum_list_sum_nth atLeast0LessThan)
qed

lemma far_field_query_returns:
  "outside_try_returns sv h xs \<Longrightarrow>
   far_field_query sv (presented_session h xs)
     = Inr (solved_session h xs, data_magnitude sv (solved_session h xs))"
  by (simp add: far_field_query_def outside_try_returns_def solved_session_def Let_def)

lemma far_field_query_raises:
  "\<not> outside_try_returns sv h xs \<Longrightarrow> \<exists>e. far_field_query sv (presented_session h xs) = Inl e"
  by (auto simp: far_field_query_def outside_try_returns_def solved_session_def Let_def
           split: option.splits)

lemma reliable_solver_returns: "outside_try_returns (reliable_solver dm) h xs"
  by (simp add: outside_try_returns_def reliable_solver_def)

lemma reliable_solver_data: "data_magnitude (reliable_solver dm) = dm"
  by (simp add: reliable_solver_def)

lemma evalAntenna_plain:
  "set_excitation st h r = Inr (st1, h1) \<Longrightarrow> far_field_query sv h1 = Inr (h2, data) \<Longrightarrow>
   evalAntenna sv st h n r None None =
     Inr (case data of Some g \<Rightarrow> g | None \<Rightarrow> np_zeros n, st1, h2, None)"
  by (simp add: evalAntenna_def)

lemma evalAntenna_traced:
  "set_excitation st h r = Inr (st1, h1) \<Longrightarrow> far_field_query sv h1 = Inr (h2, data) \<Longrightarrow>
   evalAntenna sv st h n r (Some tr) (Some t) =
     (case np_sub (case data of Some g \<Rightarrow> g | None \<Rightarrow> np_zeros n) t of
        Inl e \<Rightarrow> Inl e
      | Inr d \<Rightarrow> Inr (case data of Some g \<Rightarrow> g | None \<Rightarrow> np_zeros n, st1, h2,
                       Some (tr @ [linalg_norm d])))"
  by (simp add: evalAntenna_def Let_def)

lemma evalAntenna_query_raises:
  "set_excitation st h r = Inr (st1, h1) \<Longrightarrow> far_field_query sv h1 = Inl e \<Longrightarrow>
   evalAntenna sv st h n r ev t = Inl e"
  by (simp add: evalAntenna_def)

lemma error_function_unfold:
  "set_excitation (fst (np_array empty_store pt)) h (snd (np_array empty_store pt))
     = Inr (st1, h1) \<Longrightarrow>
   far_field_query sv h1 = Inr (h2, data) \<Longrightarrow>
   error_function sv t pt (h, tr) =
     (case np_sub (case data of Some g \<Rightarrow> g | None \<Rightarrow> np_zeros (length t)) t of
        Inl e \<Rightarrow> Inl e
      | Inr d \<Rightarrow> Inr (linalg_norm d, h2, tr @ [linalg_norm d]))"
  by (simp add: error_function_def evalAntenna_traced split_beta split: sum.splits)

lemma error_function_query_raises:
  "set_excitation (fst (np_array empty_store pt)) h (snd (np_array empty_store pt))
     = Inr (st1, h1) \<Longrightarrow>
   far_field_query sv h1 = Inl e \<Longrightarrow> error_function sv t pt (h, tr) = Inl e"
  by (simp add: error_function_def evalAntenna_query_raises split_beta)

lemma error_function_appends:
  "error_function sv t pt (h, tr) = Inr (v, h', tr') \<Longrightarrow> tr' = tr @ [v]"
  by (auto simp: error_function_def evalAntenna_def split_beta Let_def
           split: sum.splits option.splits prod.splits)

lemma set_excitation_ok:
  assumes "valid st r" and "2 * N \<le> length (deref st r)"
  shows "\<exists>st'. set_excitation st h r = Inr (st', presented_session h (deref st r))"
proof (cases r)
  case (ListRef a)
  with assms show ?thesis
    using set_excitation_list [of st a h] by simp
next
  case (ArrRef a lo hi)
  with assms have "2 * N \<le> hi - lo" by simp
  with assms(1) ArrRef show ?thesis
    using set_excitation_array [of st a lo hi h] by simp
qed

lemma np_array_valid:
  "np_array st0 xs = (st, r) \<Longrightarrow> valid st r \<and> deref st r = xs"
  by (auto simp: np_array_def)

lemma new_list_valid:
  "new_list st0 xs = (st, r) \<Longrightarrow> valid st r \<and> deref st r = xs"
  by (auto simp: new_list_def)

lemma set_excitation_point:
  assumes "2 * N \<le> length pt"
  shows "\<exists>st'. set_excitation (fst (np_array empty_store pt)) h (snd (np_array empty_store pt))
           = Inr (st', presented_session h pt)"
proof -
  obtain st r where sr: "np_array empty_store pt = (st, r)" by (cases "np_array empty_store pt")
  then have "valid st r" "deref st r = pt" using np_array_valid by blast+
  with assms sr show ?thesis
    using set_excitation_ok [of st r h] by auto
qed

lemma evalAntenna_list_unchanged:
  assumes "valid st (ListRef a)" and "2 * N \<le> length (deref st (ListRef a))"
    and "evalAntenna sv st h n (ListRef a) ev t = Inr (g, st', h', ev')"
  shows "deref st' (ListRef a) = deref st (ListRef a)"
  using assms set_excitation_list [of st a h]
  by (auto simp: evalAntenna_def Let_def split: option.splits sum.splits)

lemma set_excitation_array_deref:
  assumes v: "valid st (ArrRef a lo hi)" and len: "2 * N \<le> length (deref st (ArrRef a lo hi))"
  shows "\<exists>st'. set_excitation st h (ArrRef a lo hi)
            = Inr (st', presented_session h (deref st (ArrRef a lo hi)))
          \<and> deref st' (ArrRef a lo hi)
            = take N (deref st (ArrRef a lo hi))
              @ map floored (take N (drop N (deref st (ArrRef a lo hi))))
              @ drop (2 * N) (deref st (ArrRef a lo hi))"
proof -
  from v len have b: "lo + 2 * N \<le> hi" "hi \<le> length (cells st a)" "2 * N \<le> hi - lo"
    by auto
  show ?thesis
    using set_excitation_array [OF v b(3), of h] deref_floored_array [OF b(1,2)]
    by simp
qed

lemma evalAntenna_array_floored:
  assumes "valid st (ArrRef a lo hi)" and "2 * N \<le> length (deref st (ArrRef a lo hi))"
    and "outside_try_returns sv h (deref st (ArrRef a lo hi))"
  shows "\<exists>g st' h'. evalAntenna sv st h n (ArrRef a lo hi) None None = Inr (g, st', h', None)
          \<and> deref st' (ArrRef a lo hi)
            = take N (deref st (ArrRef a lo hi))
              @ map floored (take N (drop N (deref st (ArrRef a lo hi))))
              @ drop (2 * N) (deref st (ArrRef a lo hi))"
proof -
  from set_excitation_array_deref [OF assms(1,2), of h]
  obtain st' where e: "set_excitation st h (ArrRef a lo hi)
            = Inr (st', presented_session h (deref st (ArrRef a lo hi)))"
    and d: "deref st' (ArrRef a lo hi)
            = take N (deref st (ArrRef a lo hi))
              @ map floored (take N (drop N (deref st (ArrRef a lo hi))))
              @ drop (2 * N) (deref st (ArrRef a lo hi))"
    by blast
  from evalAntenna_plain [OF e far_field_query_returns [OF assms(3)], of n] d
  show ?thesis by blast
qed

lemma evalAntenna_returns:
  assumes "valid st r" and "2 * N \<le> length (deref st r)"
    and "outside_try_returns sv h (deref st r)"
  shows "\<exists>st'. evalAntenna sv st h n r None None =
     Inr (case data_magnitude sv (solved_session h (deref st r)) of
            Some g \<Rightarrow> g | None \<Rightarrow> np_zeros n,
          st', solved_session h (deref st r), None)"
proof -
  from set_excitation_ok [OF assms(1,2), of h]
  obtain st' where e: "set_excitation st h r = Inr (st', presented_session h (deref st r))"
    by blast
  from evalAntenna_plain [OF e far_field_query_returns [OF assms(3)], of n]
  show ?thesis by blast
qed

lemma error_function_returns:
  assumes "2 * N \<le> length pt" and "outside_try_returns sv h pt"
  shows "error_function sv t pt (h, tr) =
     (case np_sub (case data_magnitude sv (solved_session h pt) of
                     Some g \<Rightarrow> g | None \<Rightarrow> np_zeros (length t)) t of
        Inl e \<Rightarrow> Inl e
      | Inr d \<Rightarrow> Inr (linalg_norm d, solved_session h pt, tr @ [linalg_norm d]))"
proof -
  from set_excitation_point [OF assms(1), of h]
  obtain st' where e: "set_excitation (fst (np_array empty_store pt)) h
      (snd (np_array empty_store pt)) = Inr (st', presented_session h pt)"
    by blast
  show ?thesis
    by (rule error_function_unfold [OF e far_field_query_returns [OF assms(2)]])
qed

lemma error_function_degraded:
  assumes "2 * N \<le> length pt" and "outside_try_returns sv h pt"
    and "data_magnitude sv (solved_session h pt) = None"
  shows "error_function sv target pt (h, tr)
          = Inr (linalg_norm target, solved_session h pt, tr @ [linalg_norm target])"
proof -
  have "np_sub (np_zeros (length target)) target
      = Inr (map2 (-) (np_zeros (length target)) target)"
    by (rule np_sub_same_length) (simp add: np_zeros_def)
  then show ?thesis
    using error_function_returns [OF assms(1,2), of target tr] assms(3)
    by (simp add: linalg_norm_zeros_minus)
qed

lemma error_function_degraded_example:
  "2 * N \<le> length pt \<Longrightarrow>
   error_function (reliable_solver (\<lambda>h. None)) target pt (h, tr)
     = Inr (linalg_norm target, solved_session h pt, tr @ [linalg_norm target])"
  by (rule error_function_degraded)
     (simp_all add: reliable_solver_returns reliable_solver_data)

lemma evalAntenna_plain_inv:
  assumes "map_sum id fst (evalAntenna sv st h n r None None) = Inr g"
  shows "\<exists>st1 h1 h2 data. set_excitation st h r = Inr (st1, h1)
           \<and> far_field_query sv h1 = Inr (h2, data)
           \<and> g = (case data of Some d \<Rightarrow> d | None \<Rightarrow> np_zeros n)"
  using assms
  by (auto simp: evalAntenna_def Let_def split: sum.splits prod.splits)

lemma optimize_antenna_array_runs:
  "normalize_target target_pattern = Inr target \<Longrightarrow>
   optimize_antenna_array sv minimize h target_pattern maxiter =
     (case run_search sv target (minimize (af_opt_phases_deg @ af_opt_amps_v) maxiter) 0 (h, []) of
        Inl e \<Rightarrow> Inl e
      | Inr (result, h', trace) \<Rightarrow>
          Inr ((take array_size (res_x result), drop array_size (res_x result), trace), h'))"
  by (simp add: optimize_antenna_array_def Let_def split: sum.splits prod.splits)

lemma optimize_antenna_array_slices:
  assumes "optimize_antenna_array sv minimize h target_pattern maxiter
             = Inr ((first, second, trace), h')"
  shows "\<exists>target result. normalize_target target_pattern = Inr target
           \<and> run_search sv target (minimize (af_opt_phases_deg @ af_opt_amps_v) maxiter) 0 (h, [])
               = Inr (result, h', trace)
           \<and> first = take N (res_x result) \<and> second = drop N (res_x result)"
  using assms
  by (auto simp: optimize_antenna_array_def Let_def array_size_def N_def
           split: sum.splits prod.splits)

lemma linalg_norm_3_4: "linalg_norm [3, 4] = 5"
proof -
  have "sqrt 25 = sqrt (5\<^sup>2)" by simp
  then show ?thesis by (simp add: linalg_norm_def del: real_sqrt_four)
qed

lemma optimize_antenna_array_ask_once:
  assumes "normalize_target target_pattern = Inr target"
  shows "optimize_antenna_array (reliable_solver (\<lambda>h. None)) (\<lambda>x0 maxiter. Ask x0 (\<lambda>v. Stop x0))
       fresh_session target_pattern maxiter
     = Inr ((af_opt_phases_deg, af_opt_amps_v, [linalg_norm target]),
            solved_session fresh_session (af_opt_phases_deg @ af_opt_amps_v))"
proof -
  have len: "2 * N \<le> length (af_opt_phases_deg @ af_opt_amps_v)"
    by (simp add: N_def af_opt_phases_deg_def af_opt_amps_v_def)
  have lp: "length af_opt_phases_deg = array_size"
    by (simp add: array_size_def af_opt_phases_deg_def)
  show ?thesis
    by (simp add: optimize_antenna_array_runs [OF assms]
          error_function_degraded_example [OF len] lp)
qed

section \<open>Evaluation of the formatting on examples\<close>

lemma upt_N: "[0..<N] = [0, Suc 0, 2, 3, 4]"
  by (simp add: N_def upt_rec)

lemma str_nat_digits:
  "str_nat 0 = ''0''" "str_nat (Suc 0) = ''1''" "str_nat 2 = ''2''" "str_nat 3 = ''3''"
  "str_nat 4 = ''4''"
  by (simp_all add: str_nat.simps digit_char_def)

lemma format_3f_examples:
  "format_3f 0 = ''0.000''" "format_3f 1 = ''1.000''" "format_3f (1 / 1000) = ''0.001''"
  "format_3f (- 1) = ''-1.000''"
  by (simp_all add: format_3f_def round_half_even_def str_nat.simps digit_char_def Let_def)

section \<open>Properties of the normalisation\<close>

text \<open>
  Claim C9. For every target pattern with a non-zero sample, normalisation succeeds and the
  largest absolute value of the normalised pattern is exactly 1; and a pattern that is
  already normalised (no negative sample, largest absolute value 1) is returned
  unchanged.
\<close>

theorem normalize_target_max_one_idempotent:
  "((\<exists>x \<in> set t. x \<noteq> 0) \<longrightarrow>
      (\<exists>t'. normalize_target t = Inr t' \<and> length t' = length t
            \<and> Max (set (map abs t')) = 1))
   \<and> (t \<noteq> [] \<and> (\<forall>x \<in> set t. 0 \<le> x) \<and> Max (set (map abs t)) = 1 \<longrightarrow>
        normalize_target t = Inr t)"
proof (intro conjI impI)
  assume "\<exists>x \<in> set t. x \<noteq> 0"
  then obtain x where x: "x \<in> set t" "x \<noteq> 0" by auto
  show "\<exists>t'. normalize_target t = Inr t' \<and> length t' = length t
          \<and> Max (set (map abs t')) = 1"
    using normalize_target_nonzero [OF x] normalized_Max [OF x] by (simp del: set_map)
next
  assume a: "t \<noteq> [] \<and> (\<forall>x \<in> set t. 0 \<le> x) \<and> Max (set (map abs t)) = 1"
  then have ne: "map abs t \<noteq> []" by simp
  have "map (\<lambda>a. a / 1) (map abs t) = t"
    using a by (simp add: map_idI)
  then show "normalize_target t = Inr t"
    unfolding normalize_target_def np_max_Max [OF ne] using a by simp
qed

theorem normalize_target_max_one_idempotent_witness:
  "(\<exists>x \<in> set [2, 0, -1 :: real]. x \<noteq> 0)
   \<and> normalize_target [2, 0, -1] = Inr [1, 0, 1 / 2]
   \<and> Max (set (map abs [1, 0, 1 / 2 :: real])) = 1
   \<and> [1, 0, 1 / 2 :: real] \<noteq> [] \<and> list_all (\<lambda>x. 0 \<le> x) [1, 0, 1 / 2 :: real]
   \<and> normalize_target [1, 0, 1 / 2] = Inr [1, 0, 1 / 2]"
proof -
  have h1: "\<exists>x \<in> set [2, 0, -1 :: real]. x \<noteq> 0" by simp
  have h2: "[1, 0, 1 / 2 :: real] \<noteq> [] \<and> (\<forall>x \<in> set [1, 0, 1 / 2 :: real]. 0 \<le> x)
      \<and> Max (set (map abs [1, 0, 1 / 2 :: real])) = 1" by simp
  from normalize_target_max_one_idempotent [of "[2, 0, -1]"] h1
  obtain t' where "normalize_target [2, 0, -1] = Inr t'" "Max (set (map abs t')) = 1"
    by blast
  moreover have "normalize_target [2, 0, -1] = Inr [1, 0, 1 / 2]"
    by (simp add: normalize_target_def)
  ultimately have c1: "normalize_target [2, 0, -1] = Inr [1, 0, 1 / 2]"
      "Max (set (map abs [1, 0, 1 / 2 :: real])) = 1"
    by simp_all
  from normalize_target_max_one_idempotent [of "[1, 0, 1 / 2]"] h2
  have c2: "normalize_target [1, 0, 1 / 2 :: real] = Inr [1, 0, 1 / 2]" by blast
  from h1 c1 c2 show ?thesis by simp
qed

text \<open>
  Claim C10. For every target pattern with a non-zero sample, negative samples included,
  \<^verbatim>\<open>optimize_antenna_array\<close> runs its search on the normalised target: the absolute
  value of each sample divided by the largest magnitude, each between 0 and 1. Every
  evaluation of the objective function in the run is made against that target.
\<close>

theorem optimize_antenna_array_target_unit_interval:
  "(\<exists>v \<in> set t. v \<noteq> 0) \<longrightarrow>
     (\<exists>target. normalize_target t = Inr target
        \<and> target = map (\<lambda>a. \<bar>a\<bar> / Max (set (map abs t))) t
        \<and> (\<forall>y \<in> set target. 0 \<le> y \<and> y \<le> 1)
        \<and> optimize_antenna_array sv minimize h t maxiter =
            (case run_search sv target (minimize (af_opt_phases_deg @ af_opt_amps_v) maxiter) 0
                    (h, []) of
               Inl e \<Rightarrow> Inl e
             | Inr (result, h', trace) \<Rightarrow>
                 Inr ((take array_size (res_x result), drop array_size (res_x result), trace),
                      h')))"
proof
  assume "\<exists>v \<in> set t. v \<noteq> 0"
  then obtain v where v: "v \<in> set t" "v \<noteq> 0" by auto
  let ?m = "Max (set (map abs t))"
  let ?target = "map (\<lambda>a. \<bar>a\<bar> / ?m) t"
  have pos: "0 < ?m" by (rule Max_abs_pos [OF v])
  have n: "normalize_target t = Inr ?target"
    by (rule normalize_target_nonzero [OF v])
  have rng: "\<forall>y \<in> set ?target. 0 \<le> y \<and> y \<le> 1"
  proof
    fix y assume "y \<in> set ?target"
    then obtain z where z: "z \<in> set t" and y: "y = \<bar>z\<bar> / ?m" by auto
    have "\<bar>z\<bar> \<le> ?m" by (rule Max_ge) (use z in auto)
    with pos y show "0 \<le> y \<and> y \<le> 1" by simp
  qed
  from n rng optimize_antenna_array_runs [OF n, of sv minimize h maxiter]
  show "\<exists>target. normalize_target t = Inr target
        \<and> target = map (\<lambda>a. \<bar>a\<bar> / Max (set (map abs t))) t
        \<and> (\<forall>y \<in> set target. 0 \<le> y \<and> y \<le> 1)
        \<and> optimize_antenna_array sv minimize h t maxiter =
            (case run_search sv target (minimize (af_opt_phases_deg @ af_opt_amps_v) maxiter) 0
                    (h, []) of
               Inl e \<Rightarrow> Inl e
             | Inr (result, h', trace) \<Rightarrow>
                 Inr ((take array_size (res_x result), drop array_size (res_x result), trace),
                      h'))"
    by blast
qed

theorem optimize_antenna_array_target_unit_interval_witness:
  "(\<exists>v \<in> set [- 3, 0, 4 :: real]. v \<noteq> 0)
   \<and> normalize_target [- 3, 0, 4] = Inr [3 / 4, 0, 1]
   \<and> list_all (\<lambda>y. 0 \<le> y \<and> y \<le> 1) [3 / 4, 0, 1 :: real]
   \<and> optimize_antenna_array (reliable_solver (\<lambda>h. None)) (\<lambda>x0 maxiter. Ask x0 (\<lambda>v. Stop x0))
        fresh_session [- 3, 0, 4] 100
      = Inr ((af_opt_phases_deg, af_opt_amps_v, [5 / 4]),
             solved_session fresh_session (af_opt_phases_deg @ af_opt_amps_v))"
proof -
  have h: "\<exists>v \<in> set [- 3, 0, 4 :: real]. v \<noteq> 0" by simp
  from optimize_antenna_array_target_unit_interval
    [of "[- 3, 0, 4]" "reliable_solver (\<lambda>h. None)" "\<lambda>x0 maxiter. Ask x0 (\<lambda>v. Stop x0)"
        fresh_session 100] h
  obtain target where n: "normalize_target [- 3, 0, 4] = Inr target"
    and t: "target = map (\<lambda>a. \<bar>a\<bar> / Max (set (map abs [- 3, 0, 4 :: real]))) [- 3, 0, 4]"
    and r: "\<forall>y \<in> set target. 0 \<le> y \<and> y \<le> 1"
    and o: "optimize_antenna_array (reliable_solver (\<lambda>h. None))
          (\<lambda>x0 maxiter. Ask x0 (\<lambda>v. Stop x0)) fresh_session [- 3, 0, 4] 100 =
        (case run_search (reliable_solver (\<lambda>h. None)) target
                (Ask (af_opt_phases_deg @ af_opt_amps_v)
                   (\<lambda>v. Stop (af_opt_phases_deg @ af_opt_amps_v))) 0 (fresh_session, []) of
           Inl e \<Rightarrow> Inl e
         | Inr (result, h', trace) \<Rightarrow>
             Inr ((take array_size (res_x result), drop array_size (res_x result), trace), h'))"
    by blast
  from t have tv: "target = [3 / 4, 0, 1]" by simp
  have len: "2 * N \<le> length (af_opt_phases_deg @ af_opt_amps_v)"
    by (simp add: N_def af_opt_phases_deg_def af_opt_amps_v_def)
  have lp: "length af_opt_phases_deg = array_size"
    by (simp add: array_size_def af_opt_phases_deg_def)
  have nrm: "linalg_norm [3 / 4, 0, 1] = 5 / 4"
  proof -
    have e: "sum_list (map (\<lambda>x. x\<^sup>2) [3 / 4, 0, 1 :: real]) = (5 / 4)\<^sup>2"
      by (simp add: power2_eq_square)
    show ?thesis
      unfolding linalg_norm_def e by simp
  qed
  from o have "optimize_antenna_array (reliable_solver (\<lambda>h. None))
          (\<lambda>x0 maxiter. Ask x0 (\<lambda>v. Stop x0)) fresh_session [- 3, 0, 4] 100
      = Inr ((af_opt_phases_deg, af_opt_amps_v, [5 / 4]),
             solved_session fresh_session (af_opt_phases_deg @ af_opt_amps_v))"
    unfolding tv by (simp add: error_function_degraded_example [OF len] lp nrm)
  with h n r show ?thesis
    unfolding tv by simp
qed

section \<open>Properties of evalAntenna\<close>

text \<open>
  Claim C2. The claim asks that the vector of the caller holds the same values after
  \<^verbatim>\<open>evalAntenna\<close> returns. For a Python list it does (\<open>evalAntenna_list_unchanged\<close>):
  the slice \<^verbatim>\<open>phases_amps[N:]\<close> is a copy. For a numpy array the slice is a view, and
  line 80 writes the floor into the array of the caller
  (\<open>evalAntenna_array_floored\<close>). On the float array
  \<^verbatim>\<open>np.array([0.5, 0.5, 0.5, 0.5, 0.5, 0.0004, 0.25, 0.25, 0.25, 0.25])\<close> the call returns,
  and the sixth entry of the caller's array is then \<open>1 / 1000\<close> instead of \<open>1 / 2500\<close>.
\<close>

theorem evalAntenna_writes_callers_array:
  "deref (fst (np_array empty_store [1 / 2, 1 / 2, 1 / 2, 1 / 2, 1 / 2, 1 / 2500, 1 / 4, 1 / 4, 1 / 4, 1 / 4]))
     (snd (np_array empty_store [1 / 2, 1 / 2, 1 / 2, 1 / 2, 1 / 2, 1 / 2500, 1 / 4, 1 / 4, 1 / 4, 1 / 4]))
     = [1 / 2, 1 / 2, 1 / 2, 1 / 2, 1 / 2, 1 / 2500, 1 / 4, 1 / 4, 1 / 4, 1 / 4]
   \<and> map_sum id
       (\<lambda>res. deref (fst (snd res))
          (snd (np_array empty_store [1 / 2, 1 / 2, 1 / 2, 1 / 2, 1 / 2, 1 / 2500, 1 / 4, 1 / 4, 1 / 4, 1 / 4])))
       (evalAntenna (reliable_solver (\<lambda>h. None))
          (fst (np_array empty_store [1 / 2, 1 / 2, 1 / 2, 1 / 2, 1 / 2, 1 / 2500, 1 / 4, 1 / 4, 1 / 4, 1 / 4]))
          fresh_session 3
          (snd (np_array empty_store [1 / 2, 1 / 2, 1 / 2, 1 / 2, 1 / 2, 1 / 2500, 1 / 4, 1 / 4, 1 / 4, 1 / 4]))
          None None)
     = Inr [1 / 2, 1 / 2, 1 / 2, 1 / 2, 1 / 2, 1 / 1000, 1 / 4, 1 / 4, 1 / 4, 1 / 4]"
proof -
  let ?xs = "[1 / 2, 1 / 2, 1 / 2, 1 / 2, 1 / 2, 1 / 2500, 1 / 4, 1 / 4, 1 / 4, 1 / 4 :: real]"
  let ?st = "fst (np_array empty_store ?xs)"
  have r: "snd (np_array empty_store ?xs) = ArrRef 0 0 10"
    by (simp add: np_array_def empty_store_def)
  have d: "deref ?st (ArrRef 0 0 10) = ?xs" and v: "valid ?st (ArrRef 0 0 10)"
    by (simp_all add: np_array_def empty_store_def)
  have l: "2 * N \<le> length (deref ?st (ArrRef 0 0 10))"
    unfolding d by (simp add: N_def)
  from evalAntenna_array_floored [OF v l reliable_solver_returns, of "\<lambda>h. None" fresh_session 3]
  obtain g st' h' where
    e: "evalAntenna (reliable_solver (\<lambda>h. None)) ?st fresh_session 3 (ArrRef 0 0 10) None None
          = Inr (g, st', h', None)"
    and a: "deref st' (ArrRef 0 0 10)
          = take N ?xs @ map floored (take N (drop N ?xs)) @ drop (2 * N) ?xs"
    unfolding d by blast
  have "take N ?xs @ map floored (take N (drop N ?xs)) @ drop (2 * N) ?xs
      = [1 / 2, 1 / 2, 1 / 2, 1 / 2, 1 / 2, 1 / 1000, 1 / 4, 1 / 4, 1 / 4, 1 / 4]"
    by (simp add: N_def floored_def eps_def)
  with a have "deref st' (ArrRef 0 0 10)
      = [1 / 2, 1 / 2, 1 / 2, 1 / 2, 1 / 2, 1 / 1000, 1 / 4, 1 / 4, 1 / 4, 1 / 4]"
    by simp
  with e d show ?thesis
    unfolding r by simp
qed

text \<open>
  Claim C3, as amended. For every excitation vector (a reference of the store with at
  least \<open>2 * N\<close> entries) and every sample count \<open>n\<close>: when \<^verbatim>\<open>data_magnitude\<close> raises,
  the calls before the \<^verbatim>\<open>try\<close> having returned, \<^verbatim>\<open>evalAntenna\<close> returns, and returns
  \<open>n\<close> zeros; the objective function then returns the Euclidean norm of its target, and
  appends it to the trace. When \<^verbatim>\<open>setup.analyze\<close>, \<^verbatim>\<open>available_variations\<close> or
  \<^verbatim>\<open>get_solution_data\<close> raises, \<^verbatim>\<open>evalAntenna\<close> raises.
\<close>

theorem degraded_pattern_fallback:
  "(valid st r \<and> 2 * N \<le> length (deref st r) \<and> outside_try_returns sv h (deref st r)
      \<and> data_magnitude sv (solved_session h (deref st r)) = None \<longrightarrow>
      (\<exists>st'. evalAntenna sv st h n r None None
               = Inr (replicate n 0, st', solved_session h (deref st r), None)))
   \<and> (2 * N \<le> length pt \<and> outside_try_returns sv h pt
        \<and> data_magnitude sv (solved_session h pt) = None \<longrightarrow>
        error_function sv target pt (h, tr)
          = Inr (linalg_norm target, solved_session h pt, tr @ [linalg_norm target]))
   \<and> (valid st r \<and> 2 * N \<le> length (deref st r) \<and> \<not> outside_try_returns sv h (deref st r) \<longrightarrow>
        (\<exists>e. evalAntenna sv st h n r None None = Inl e))"
proof (intro conjI impI)
  assume a: "valid st r \<and> 2 * N \<le> length (deref st r) \<and> outside_try_returns sv h (deref st r)
      \<and> data_magnitude sv (solved_session h (deref st r)) = None"
  with evalAntenna_returns [of st r sv h n]
  show "\<exists>st'. evalAntenna sv st h n r None None
               = Inr (replicate n 0, st', solved_session h (deref st r), None)"
    by (simp add: np_zeros_def)
next
  assume "2 * N \<le> length pt \<and> outside_try_returns sv h pt
        \<and> data_magnitude sv (solved_session h pt) = None"
  then show "error_function sv target pt (h, tr)
          = Inr (linalg_norm target, solved_session h pt, tr @ [linalg_norm target])"
    by (simp add: error_function_degraded)
next
  assume a: "valid st r \<and> 2 * N \<le> length (deref st r) \<and> \<not> outside_try_returns sv h (deref st r)"
  then obtain st' where s: "set_excitation st h r = Inr (st', presented_session h (deref st r))"
    using set_excitation_ok [of st r h] by blast
  from a obtain e where "far_field_query sv (presented_session h (deref st r)) = Inl e"
    using far_field_query_raises [of sv h "deref st r"] by blast
  with s have "evalAntenna sv st h n r None None = Inl e"
    by (rule evalAntenna_query_raises)
  then show "\<exists>e. evalAntenna sv st h n r None None = Inl e" ..
qed

theorem degraded_pattern_fallback_witness:
  "valid (fst (np_array empty_store (replicate 10 1))) (snd (np_array empty_store (replicate 10 1)))
   \<and> 2 * N \<le> length (replicate 10 (1 :: real))
   \<and> outside_try_returns (reliable_solver (\<lambda>h. None)) fresh_session (replicate 10 1)
   \<and> data_magnitude (reliable_solver (\<lambda>h. None)) (solved_session fresh_session (replicate 10 1))
       = None
   \<and> (\<exists>st'. evalAntenna (reliable_solver (\<lambda>h. None)) (fst (np_array empty_store (replicate 10 1)))
               fresh_session 3 (snd (np_array empty_store (replicate 10 1))) None None
             = Inr ([0, 0, 0], st', solved_session fresh_session (replicate 10 1), None))
   \<and> error_function (reliable_solver (\<lambda>h. None)) [3, 4] (replicate 10 1) (fresh_session, [])
       = Inr (5, solved_session fresh_session (replicate 10 1), [5])
   \<and> \<not> outside_try_returns failing_query_solver fresh_session (replicate 10 1)
   \<and> (\<exists>e. evalAntenna failing_query_solver (fst (np_array empty_store (replicate 10 1)))
             fresh_session 3 (snd (np_array empty_store (replicate 10 1))) None None = Inl e)"
proof -
  let ?st = "fst (np_array empty_store (replicate 10 1))"
  let ?r = "snd (np_array empty_store (replicate 10 1))"
  let ?sv = "reliable_solver (\<lambda>h. None)"
  have d: "deref ?st ?r = replicate 10 1" and v: "valid ?st ?r"
    by (simp_all add: np_array_def empty_store_def)
  have l: "2 * N \<le> length (replicate 10 (1 :: real))"
    by (simp add: N_def)
  have o: "outside_try_returns ?sv fresh_session (replicate 10 1)"
    by (rule reliable_solver_returns)
  have m: "data_magnitude ?sv (solved_session fresh_session (replicate 10 1)) = None"
    by (simp add: reliable_solver_data)
  have f: "\<not> outside_try_returns failing_query_solver fresh_session (replicate 10 1)"
    by (simp add: outside_try_returns_def failing_query_solver_def)
  from degraded_pattern_fallback
    [of ?st ?r ?sv fresh_session 3 "replicate 10 1" "[3, 4]" "[]"] v l o m
  have 1: "\<exists>st'. evalAntenna ?sv ?st fresh_session 3 ?r None None
             = Inr ([0, 0, 0], st', solved_session fresh_session (replicate 10 1), None)"
    and 2: "error_function ?sv [3, 4] (replicate 10 1) (fresh_session, [])
       = Inr (5, solved_session fresh_session (replicate 10 1), [5])"
    by (simp_all add: d linalg_norm_3_4 numeral_3_eq_3)
  from degraded_pattern_fallback
    [of ?st ?r failing_query_solver fresh_session 3 "replicate 10 1" "[3, 4]" "[]"] v l f
  have 3: "\<exists>e. evalAntenna failing_query_solver ?st fresh_session 3 ?r None None = Inl e"
    by (simp add: d)
  from v l o m f 1 2 3 show ?thesis by simp
qed

text \<open>
  Claim C3 as stated fails when the far-field query itself raises: with a solver whose
  \<^verbatim>\<open>get_solution_data\<close> raises, line 92 is outside the \<^verbatim>\<open>try\<close> and \<^verbatim>\<open>evalAntenna\<close>
  raises that exception instead of returning zeros.
\<close>

theorem evalAntenna_query_exception_counterexample:
  "evalAntenna failing_query_solver (fst (np_array empty_store (replicate 10 1))) fresh_session 3
     (snd (np_array empty_store (replicate 10 1))) None None
   = Inl SolverError"
proof -
  let ?st = "fst (np_array empty_store (replicate 10 1))"
  let ?r = "snd (np_array empty_store (replicate 10 1))"
  have "valid ?st ?r" and "2 * N \<le> length (deref ?st ?r)"
    by (simp_all add: np_array_def empty_store_def N_def)
  then obtain st' where
    s: "set_excitation ?st fresh_session ?r
          = Inr (st', presented_session fresh_session (deref ?st ?r))"
    using set_excitation_ok by blast
  have "far_field_query failing_query_solver (presented_session fresh_session (deref ?st ?r))
      = Inl SolverError"
    by (simp add: far_field_query_def failing_query_solver_def Let_def)
  with s show ?thesis
    by (rule evalAntenna_query_raises)
qed

text \<open>
  Claim C4, as amended. For every excitation vector and every sample count \<open>n\<close>, when
  the calls before the \<^verbatim>\<open>try\<close> return, \<^verbatim>\<open>evalAntenna\<close> returns \<open>n\<close> zeros when
  \<^verbatim>\<open>data_magnitude\<close> fails, and returns the samples of the query as they are when it
  succeeds: their number is \<open>n\<close> exactly when the query yields \<open>n\<close> samples.
\<close>

theorem evalAntenna_length_by_path:
  "valid st r \<and> 2 * N \<le> length (deref st r) \<and> outside_try_returns sv h (deref st r) \<longrightarrow>
     (\<exists>g st'. evalAntenna sv st h n r None None
                = Inr (g, st', solved_session h (deref st r), None)
        \<and> (data_magnitude sv (solved_session h (deref st r)) = None \<longrightarrow>
             g = replicate n 0 \<and> length g = n)
        \<and> (\<forall>d. data_magnitude sv (solved_session h (deref st r)) = Some d \<longrightarrow>
             g = d \<and> (length g = n \<longleftrightarrow> length d = n)))"
proof
  assume a: "valid st r \<and> 2 * N \<le> length (deref st r) \<and> outside_try_returns sv h (deref st r)"
  with evalAntenna_returns [of st r sv h n]
  obtain st' where "evalAntenna sv st h n r None None
      = Inr (case data_magnitude sv (solved_session h (deref st r)) of
               Some g \<Rightarrow> g | None \<Rightarrow> np_zeros n,
             st', solved_session h (deref st r), None)"
    by blast
  then show "\<exists>g st'. evalAntenna sv st h n r None None
                = Inr (g, st', solved_session h (deref st r), None)
        \<and> (data_magnitude sv (solved_session h (deref st r)) = None \<longrightarrow>
             g = replicate n 0 \<and> length g = n)
        \<and> (\<forall>d. data_magnitude sv (solved_session h (deref st r)) = Some d \<longrightarrow>
             g = d \<and> (length g = n \<longleftrightarrow> length d = n))"
    by (auto simp: np_zeros_def)
qed

theorem evalAntenna_length_by_path_witness:
  "valid (fst (np_array empty_store (replicate 10 1))) (snd (np_array empty_store (replicate 10 1)))
   \<and> 2 * N \<le> length (deref (fst (np_array empty_store (replicate 10 1)))
                      (snd (np_array empty_store (replicate 10 1))))
   \<and> outside_try_returns (reliable_solver (\<lambda>h. None)) fresh_session (replicate 10 1)
   \<and> outside_try_returns (reliable_solver (\<lambda>h. Some [7, 8])) fresh_session (replicate 10 1)
   \<and> (\<exists>st'. evalAntenna (reliable_solver (\<lambda>h. None)) (fst (np_array empty_store (replicate 10 1)))
               fresh_session 3 (snd (np_array empty_store (replicate 10 1))) None None
             = Inr ([0, 0, 0], st', solved_session fresh_session (replicate 10 1), None))
   \<and> (\<exists>st'. evalAntenna (reliable_solver (\<lambda>h. Some [7, 8]))
               (fst (np_array empty_store (replicate 10 1)))
               fresh_session 3 (snd (np_array empty_store (replicate 10 1))) None None
             = Inr ([7, 8], st', solved_session fresh_session (replicate 10 1), None))"
proof -
  let ?st = "fst (np_array empty_store (replicate 10 1))"
  let ?r = "snd (np_array empty_store (replicate 10 1))"
  have d: "deref ?st ?r = replicate 10 1" and v: "valid ?st ?r"
    by (simp_all add: np_array_def empty_store_def)
  have l: "2 * N \<le> length (replicate 10 (1 :: real))"
    by (simp add: N_def)
  have o: "outside_try_returns (reliable_solver dm) fresh_session (replicate 10 1)" for dm
    by (rule reliable_solver_returns)
  from evalAntenna_length_by_path [of ?st ?r "reliable_solver (\<lambda>h. None)" fresh_session 3] v l o
  have 1: "\<exists>st'. evalAntenna (reliable_solver (\<lambda>h. None)) ?st fresh_session 3 ?r None None
             = Inr ([0, 0, 0], st', solved_session fresh_session (replicate 10 1), None)"
    by (auto simp: d numeral_3_eq_3 reliable_solver_data)
  from evalAntenna_length_by_path [of ?st ?r "reliable_solver (\<lambda>h. Some [7, 8])" fresh_session 3]
    v l o
  have 2: "\<exists>st'. evalAntenna (reliable_solver (\<lambda>h. Some [7, 8])) ?st fresh_session 3 ?r None None
             = Inr ([7, 8], st', solved_session fresh_session (replicate 10 1), None)"
    by (auto simp: d reliable_solver_data)
  from v l o 1 2 show ?thesis by (simp add: d)
qed

text \<open>
  Claim C4 as stated fails on the success path: with a query that yields 12 samples and
  \<^verbatim>\<open>N_samples = 10\<close>, the call returns 12 samples.
\<close>

theorem evalAntenna_length_counterexample:
  "map_sum id (\<lambda>res. length (fst res))
     (evalAntenna (reliable_solver (\<lambda>h. Some (replicate 12 1)))
        (fst (np_array empty_store (replicate 10 1)))
        fresh_session 10 (snd (np_array empty_store (replicate 10 1))) None None)
   = Inr 12"
proof -
  let ?st = "fst (np_array empty_store (replicate 10 1))"
  let ?r = "snd (np_array empty_store (replicate 10 1))"
  have "valid ?st ?r" and "2 * N \<le> length (deref ?st ?r)"
    by (simp_all add: np_array_def empty_store_def N_def)
  from evalAntenna_returns [OF this reliable_solver_returns,
      of "\<lambda>h. Some (replicate 12 1)" fresh_session 10]
  show ?thesis
    by (auto simp: reliable_solver_data)
qed

text \<open>
  Claim C5. For every excitation vector, lines 74 to 82 succeed and the calls of
  \<^verbatim>\<open>SetVariableValue\<close> that they add to the session are, for each element \<open>i\<close> in turn,
  the phase \<open>i\<close> as it is in the vector and then the amplitude \<open>i\<close>: \<open>eps\<close> when its
  magnitude is below \<open>eps\<close>, the amplitude itself otherwise, each rendered by the format
  \<^verbatim>\<open>0.3f\<close> with its unit. The floor is rendered as \<^verbatim>\<open>0.001V\<close>. The solve and the
  far-field query of \<^verbatim>\<open>evalAntenna\<close> are made in the session that holds these calls.
\<close>

theorem amplitude_floor_presented:
  "format_3f eps @ ''V'' = ''0.001V''
   \<and> (valid st r \<and> 2 * N \<le> length (deref st r) \<longrightarrow>
       (\<exists>st1 h1. set_excitation st h r = Inr (st1, h1)
          \<and> set_calls h1 = set_calls h @ concat (map (\<lambda>i.
               [(''Phase'' @ str_nat i, format_3f (deref st r ! i) @ ''rad''),
                (''Amp'' @ str_nat i,
                 format_3f (if \<bar>deref st r ! (N + i)\<bar> < eps then eps
                            else deref st r ! (N + i)) @ ''V'')]) [0..<N])
          \<and> evalAntenna sv st h n r None None =
              (case far_field_query sv h1 of
                 Inl e \<Rightarrow> Inl e
               | Inr (h2, far_field_data) \<Rightarrow>
                   Inr (case far_field_data of Some d \<Rightarrow> d | None \<Rightarrow> np_zeros n,
                        st1, h2, None))))"
proof (intro conjI impI)
  show "format_3f eps @ ''V'' = ''0.001V''"
    by (simp add: eps_def format_3f_examples)
next
  assume a: "valid st r \<and> 2 * N \<le> length (deref st r)"
  then obtain st1 where
    e: "set_excitation st h r = Inr (st1, presented_session h (deref st r))"
    using set_excitation_ok [of st r h] by blast
  have c: "set_calls (presented_session h (deref st r)) = set_calls h @ concat (map (\<lambda>i.
               [(''Phase'' @ str_nat i, format_3f (deref st r ! i) @ ''rad''),
                (''Amp'' @ str_nat i,
                 format_3f (if \<bar>deref st r ! (N + i)\<bar> < eps then eps
                            else deref st r ! (N + i)) @ ''V'')]) [0..<N])"
    by (simp add: presented_session_def element_calls_def floored_def)
  have v: "evalAntenna sv st h n r None None =
              (case far_field_query sv (presented_session h (deref st r)) of
                 Inl e \<Rightarrow> Inl e
               | Inr (h2, far_field_data) \<Rightarrow>
                   Inr (case far_field_data of Some d \<Rightarrow> d | None \<Rightarrow> np_zeros n,
                        st1, h2, None))"
    using e by (simp add: evalAntenna_def split: sum.splits)
  from e c v
  show "\<exists>st1 h1. set_excitation st h r = Inr (st1, h1)
          \<and> set_calls h1 = set_calls h @ concat (map (\<lambda>i.
               [(''Phase'' @ str_nat i, format_3f (deref st r ! i) @ ''rad''),
                (''Amp'' @ str_nat i,
                 format_3f (if \<bar>deref st r ! (N + i)\<bar> < eps then eps
                            else deref st r ! (N + i)) @ ''V'')]) [0..<N])
          \<and> evalAntenna sv st h n r None None =
              (case far_field_query sv h1 of
                 Inl e \<Rightarrow> Inl e
               | Inr (h2, far_field_data) \<Rightarrow>
                   Inr (case far_field_data of Some d \<Rightarrow> d | None \<Rightarrow> np_zeros n,
                        st1, h2, None))"
    by blast
qed

theorem amplitude_floor_presented_witness:
  "valid (fst (np_array empty_store [0, 0, 0, 0, 0, 0, - 1 / 2000, 1, 1 / 1000, - 1]))
     (snd (np_array empty_store [0, 0, 0, 0, 0, 0, - 1 / 2000, 1, 1 / 1000, - 1]))
   \<and> 2 * N \<le> length (deref
        (fst (np_array empty_store [0, 0, 0, 0, 0, 0, - 1 / 2000, 1, 1 / 1000, - 1]))
        (snd (np_array empty_store [0, 0, 0, 0, 0, 0, - 1 / 2000, 1, 1 / 1000, - 1])))
   \<and> (\<exists>g st' h'. evalAntenna (reliable_solver (\<lambda>h. None))
          (fst (np_array empty_store [0, 0, 0, 0, 0, 0, - 1 / 2000, 1, 1 / 1000, - 1]))
          fresh_session 3
          (snd (np_array empty_store [0, 0, 0, 0, 0, 0, - 1 / 2000, 1, 1 / 1000, - 1]))
          None None = Inr (g, st', h', None)
        \<and> set_calls h' =
            [(''Phase0'', ''0.000rad''), (''Amp0'', ''0.001V''),
             (''Phase1'', ''0.000rad''), (''Amp1'', ''0.001V''),
             (''Phase2'', ''0.000rad''), (''Amp2'', ''1.000V''),
             (''Phase3'', ''0.000rad''), (''Amp3'', ''0.001V''),
             (''Phase4'', ''0.000rad''), (''Amp4'', ''-1.000V'')])"
proof -
  let ?xs = "[0, 0, 0, 0, 0, 0, - 1 / 2000, 1, 1 / 1000, - 1 :: real]"
  let ?st = "fst (np_array empty_store ?xs)"
  let ?r = "snd (np_array empty_store ?xs)"
  let ?sv = "reliable_solver (\<lambda>h. None)"
  have d: "deref ?st ?r = ?xs" and v: "valid ?st ?r"
    by (simp_all add: np_array_def empty_store_def)
  have l: "2 * N \<le> length ?xs"
    by (simp add: N_def)
  have calls: "set_calls fresh_session @ concat (map (\<lambda>i.
               [(''Phase'' @ str_nat i, format_3f (?xs ! i) @ ''rad''),
                (''Amp'' @ str_nat i,
                 format_3f (if \<bar>?xs ! (N + i)\<bar> < eps then eps else ?xs ! (N + i)) @ ''V'')])
               [0..<N])
      = [(''Phase0'', ''0.000rad''), (''Amp0'', ''0.001V''),
         (''Phase1'', ''0.000rad''), (''Amp1'', ''0.001V''),
         (''Phase2'', ''0.000rad''), (''Amp2'', ''1.000V''),
         (''Phase3'', ''0.000rad''), (''Amp3'', ''0.001V''),
         (''Phase4'', ''0.000rad''), (''Amp4'', ''-1.000V'')]"
    unfolding upt_N
    by (simp add: fresh_session_def N_def eps_def str_nat_digits format_3f_examples)
  have q: "far_field_query ?sv h1 = Inr (analyze h1, None)" for h1
    by (simp add: far_field_query_def reliable_solver_def Let_def)
  from amplitude_floor_presented [of ?st ?r fresh_session ?sv 3] v l
  obtain st1 h1 where
    c: "set_calls h1 = set_calls fresh_session @ concat (map (\<lambda>i.
               [(''Phase'' @ str_nat i, format_3f (deref ?st ?r ! i) @ ''rad''),
                (''Amp'' @ str_nat i,
                 format_3f (if \<bar>deref ?st ?r ! (N + i)\<bar> < eps then eps
                            else deref ?st ?r ! (N + i)) @ ''V'')]) [0..<N])"
    and e: "evalAntenna ?sv ?st fresh_session 3 ?r None None =
              (case far_field_query ?sv h1 of
                 Inl e \<Rightarrow> Inl e
               | Inr (h2, far_field_data) \<Rightarrow>
                   Inr (case far_field_data of Some d \<Rightarrow> d | None \<Rightarrow> np_zeros 3,
                        st1, h2, None))"
    unfolding d by blast
  from e have "evalAntenna ?sv ?st fresh_session 3 ?r None None
      = Inr (np_zeros 3, st1, analyze h1, None)"
    by (simp add: q)
  moreover from c have "set_calls (analyze h1) =
            [(''Phase0'', ''0.000rad''), (''Amp0'', ''0.001V''),
             (''Phase1'', ''0.000rad''), (''Amp1'', ''0.001V''),
             (''Phase2'', ''0.000rad''), (''Amp2'', ''1.000V''),
             (''Phase3'', ''0.000rad''), (''Amp3'', ''0.001V''),
             (''Phase4'', ''0.000rad''), (''Amp4'', ''-1.000V'')]"
    unfolding d calls by (simp add: analyze_def)
  ultimately show ?thesis
    using v l unfolding d by blast
qed

section \<open>Properties of the objective function and of a run\<close>

text \<open>
  Claim C6. When \<^verbatim>\<open>evalAntenna\<close> returns, for the point \<open>pt\<close>, an observed pattern as long
  as the target, the objective function returns the square root of the sum of the squares
  of the differences \<open>observed ! i - target ! i\<close>, and the value appended to the trace,
  by \<^verbatim>\<open>evalAntenna\<close> inside that call, is the value returned.
\<close>

theorem objective_is_l2_norm:
  "np_array empty_store pt = (st, r)
   \<and> map_sum id fst (evalAntenna sv st h (length target) r None None) = Inr observed
   \<and> length observed = length target \<longrightarrow>
     (\<exists>st' h'. evalAntenna sv st h (length target) r (Some tr) (Some target)
          = Inr (observed, st', h',
                 Some (tr @ [sqrt (\<Sum>i<length target. (observed ! i - target ! i)\<^sup>2)]))
        \<and> error_function sv target pt (h, tr)
          = Inr (sqrt (\<Sum>i<length target. (observed ! i - target ! i)\<^sup>2), h',
                 tr @ [sqrt (\<Sum>i<length target. (observed ! i - target ! i)\<^sup>2)]))"
proof
  assume a: "np_array empty_store pt = (st, r)
   \<and> map_sum id fst (evalAntenna sv st h (length target) r None None) = Inr observed
   \<and> length observed = length target"
  then obtain st1 h1 h2 data where e: "set_excitation st h r = Inr (st1, h1)"
    and q: "far_field_query sv h1 = Inr (h2, data)"
    and g: "observed = (case data of Some d \<Rightarrow> d | None \<Rightarrow> np_zeros (length target))"
    using evalAntenna_plain_inv [of sv st h "length target" r observed] by blast
  from a have sub: "np_sub observed target = Inr (map2 (-) observed target)"
    by (simp add: np_sub_same_length)
  from a have nrm: "linalg_norm (map2 (-) observed target)
      = sqrt (\<Sum>i<length target. (observed ! i - target ! i)\<^sup>2)"
    by (simp add: linalg_norm_diff)
  have sr: "fst (np_array empty_store pt) = st" "snd (np_array empty_store pt) = r"
    using a by simp_all
  have 1: "evalAntenna sv st h (length target) r (Some tr) (Some target)
          = Inr (observed, st1, h2,
                 Some (tr @ [sqrt (\<Sum>i<length target. (observed ! i - target ! i)\<^sup>2)]))"
    using evalAntenna_traced [OF e q, of "length target" tr target] sub nrm
    unfolding g [symmetric] by simp
  have 2: "error_function sv target pt (h, tr)
          = Inr (sqrt (\<Sum>i<length target. (observed ! i - target ! i)\<^sup>2), h2,
                 tr @ [sqrt (\<Sum>i<length target. (observed ! i - target ! i)\<^sup>2)])"
    using error_function_unfold [of pt h st1 h1 sv h2 data target tr] e q sub nrm
    unfolding sr g [symmetric] by simp
  from 1 2 show "\<exists>st' h'. evalAntenna sv st h (length target) r (Some tr) (Some target)
          = Inr (observed, st', h',
                 Some (tr @ [sqrt (\<Sum>i<length target. (observed ! i - target ! i)\<^sup>2)]))
        \<and> error_function sv target pt (h, tr)
          = Inr (sqrt (\<Sum>i<length target. (observed ! i - target ! i)\<^sup>2), h',
                 tr @ [sqrt (\<Sum>i<length target. (observed ! i - target ! i)\<^sup>2)])"
    by blast
qed

theorem objective_is_l2_norm_witness:
  "np_array empty_store (replicate 10 1)
     = (fst (np_array empty_store (replicate 10 1)), snd (np_array empty_store (replicate 10 1)))
   \<and> map_sum id fst (evalAntenna (reliable_solver (\<lambda>h. Some [4, 4]))
        (fst (np_array empty_store (replicate 10 1)))
        fresh_session (length [1, 0 :: real]) (snd (np_array empty_store (replicate 10 1)))
        None None) = Inr [4, 4]
   \<and> length [4, 4 :: real] = length [1, 0 :: real]
   \<and> (\<exists>h'. error_function (reliable_solver (\<lambda>h. Some [4, 4])) [1, 0] (replicate 10 1)
          (fresh_session, [2])
          = Inr (5, h', [2, 5]))"
proof -
  let ?st = "fst (np_array empty_store (replicate 10 1))"
  let ?r = "snd (np_array empty_store (replicate 10 1))"
  let ?sv = "reliable_solver (\<lambda>h. Some [4, 4])"
  have v: "valid ?st ?r" and l: "2 * N \<le> length (deref ?st ?r)"
    by (simp_all add: np_array_def empty_store_def N_def)
  from evalAntenna_returns [OF v l reliable_solver_returns,
      of "\<lambda>h. Some [4, 4]" fresh_session "length [1, 0 :: real]"]
  have h1: "map_sum id fst (evalAntenna ?sv ?st fresh_session
        (length [1, 0 :: real]) ?r None None) = Inr [4, 4]"
    by (auto simp: reliable_solver_data)
  have h0: "np_array empty_store (replicate 10 1) = (?st, ?r)" by simp
  have s: "sqrt (\<Sum>i<length [1, 0 :: real]. ([4, 4] ! i - [1, 0] ! i)\<^sup>2) = 5"
  proof -
    have "sqrt 25 = sqrt (5\<^sup>2)" by simp
    then show ?thesis by (simp add: lessThan_Suc del: real_sqrt_four)
  qed
  from objective_is_l2_norm [of "replicate 10 1" ?st ?r ?sv fresh_session
      "[1, 0]" "[4, 4]" "[2]"] h0 h1
  have "\<exists>h'. error_function ?sv [1, 0] (replicate 10 1) (fresh_session, [2])
          = Inr (5, h', [2, 5])"
    unfolding s by auto
  with h0 h1 show ?thesis by simp
qed

text \<open>
  Claim C7. A run of the search that ends without an exception leaves the trace it
  started from, extended at the end by one value for each evaluation of the objective
  function: \<open>n\<close> counts the evaluations before the run and \<^verbatim>\<open>result.nfev\<close> those at
  its end. An evaluation whose \<^verbatim>\<open>data_magnitude\<close> failed returns too, and counts.
\<close>

theorem error_trace_append_only:
  "run_search sv target s n (h, tr) = Inr (res, h', tr') \<longrightarrow>
     (\<exists>vals. tr' = tr @ vals \<and> n + length vals = res_nfev res)"
proof (induction s arbitrary: n h tr)
  case (Stop best)
  then show ?case by auto
next
  case (Ask pt k)
  show ?case
  proof
    assume run: "run_search sv target (Ask pt k) n (h, tr) = Inr (res, h', tr')"
    then obtain v h1 tr1 where
      call: "error_function sv target pt (h, tr) = Inr (v, h1, tr1)" and
      rest: "run_search sv target (k v) (Suc n) (h1, tr1) = Inr (res, h', tr')"
      by (auto split: sum.splits)
    from call have tr1: "tr1 = tr @ [v]" by (rule error_function_appends)
    from Ask.IH [of "k v" "Suc n" h1 tr1] rest
    obtain vals where "tr' = tr1 @ vals" "Suc n + length vals = res_nfev res"
      by auto
    with tr1 have "tr' = tr @ (v # vals) \<and> n + length (v # vals) = res_nfev res"
      by simp
    then show "\<exists>vals. tr' = tr @ vals \<and> n + length vals = res_nfev res"
      by blast
  qed
qed

theorem error_trace_append_only_witness:
  "run_search (reliable_solver (\<lambda>h. None)) [3, 4]
     (Ask (replicate 10 1) (\<lambda>v. Ask (replicate 10 2) (\<lambda>w. Stop (replicate 10 1)))) 0
     (fresh_session, [])
   = Inr (\<lparr>res_x = replicate 10 1, res_nfev = 2\<rparr>,
          solved_session (solved_session fresh_session (replicate 10 1)) (replicate 10 2),
          [5, 5])
   \<and> (\<exists>vals. [5, 5 :: real] = [] @ vals
         \<and> 0 + length vals = res_nfev \<lparr>res_x = replicate 10 1, res_nfev = 2\<rparr>)"
proof -
  have call: "error_function (reliable_solver (\<lambda>h. None)) [3, 4] (replicate 10 c) (h, tr)
      = Inr (5, solved_session h (replicate 10 c), tr @ [5])" for c h tr
    using error_function_degraded_example [of "replicate 10 c" "[3, 4]" h tr] linalg_norm_3_4
    by (simp add: N_def)
  have run: "run_search (reliable_solver (\<lambda>h. None)) [3, 4]
     (Ask (replicate 10 1) (\<lambda>v. Ask (replicate 10 2) (\<lambda>w. Stop (replicate 10 1)))) 0
     (fresh_session, [])
   = Inr (\<lparr>res_x = replicate 10 1, res_nfev = 2\<rparr>,
          solved_session (solved_session fresh_session (replicate 10 1)) (replicate 10 2),
          [5, 5])"
    by (simp add: call)
  from error_trace_append_only [of "reliable_solver (\<lambda>h. None)" "[3, 4]"
      "Ask (replicate 10 1) (\<lambda>v. Ask (replicate 10 2) (\<lambda>w. Stop (replicate 10 1)))" 0
      fresh_session "[]" "\<lparr>res_x = replicate 10 1, res_nfev = 2\<rparr>"
      "solved_session (solved_session fresh_session (replicate 10 1)) (replicate 10 2)"
      "[5, 5]"] run
  show ?thesis by blast
qed

text \<open>
  Claim C8. With a target pattern of 10 samples and a far-field query that yields 12
  samples, the objective function raises; it returns no value and appends nothing.
  When the calls before the \<^verbatim>\<open>try\<close> return, the exception is the \<^verbatim>\<open>ValueError\<close> of
  line 110: the operands of the subtraction cannot be broadcast together.
\<close>

theorem objective_length_mismatch_raises:
  "length target = 10 \<and> 2 * N \<le> length pt
   \<and> data_magnitude sv (solved_session h pt) = Some observed \<and> length observed = 12 \<longrightarrow>
     (\<exists>e. error_function sv target pt (h, tr) = Inl e)
     \<and> (outside_try_returns sv h pt \<longrightarrow>
          error_function sv target pt (h, tr) = Inl ValueError)"
proof
  assume a: "length target = 10 \<and> 2 * N \<le> length pt
   \<and> data_magnitude sv (solved_session h pt) = Some observed \<and> length observed = 12"
  then have sub: "np_sub observed target = Inl ValueError"
    by (simp add: np_sub_def)
  have ret: "error_function sv target pt (h, tr) = Inl ValueError"
    if "outside_try_returns sv h pt"
    using error_function_returns [of pt sv h target tr] that a sub by simp
  have "\<exists>e. error_function sv target pt (h, tr) = Inl e"
  proof (cases "outside_try_returns sv h pt")
    case True
    then show ?thesis using ret by blast
  next
    case False
    from a obtain st' where s: "set_excitation (fst (np_array empty_store pt)) h
        (snd (np_array empty_store pt)) = Inr (st', presented_session h pt)"
      using set_excitation_point [of pt h] by blast
    from False obtain e where "far_field_query sv (presented_session h pt) = Inl e"
      using far_field_query_raises by blast
    with s have "error_function sv target pt (h, tr) = Inl e"
      by (rule error_function_query_raises)
    then show ?thesis ..
  qed
  with ret show "(\<exists>e. error_function sv target pt (h, tr) = Inl e)
     \<and> (outside_try_returns sv h pt \<longrightarrow>
          error_function sv target pt (h, tr) = Inl ValueError)"
    by blast
qed

theorem objective_length_mismatch_raises_witness:
  "length (replicate 10 (1 :: real)) = 10 \<and> 2 * N \<le> length (replicate 10 (1 :: real))
   \<and> data_magnitude (reliable_solver (\<lambda>h. Some (replicate 12 1)))
        (solved_session fresh_session (replicate 10 1))
       = Some (replicate 12 (1 :: real))
   \<and> length (replicate 12 (1 :: real)) = 12
   \<and> outside_try_returns (reliable_solver (\<lambda>h. Some (replicate 12 1))) fresh_session
        (replicate 10 1)
   \<and> error_function (reliable_solver (\<lambda>h. Some (replicate 12 1))) (replicate 10 1)
        (replicate 10 1) (fresh_session, []) = Inl ValueError"
  using objective_length_mismatch_raises [of "replicate 10 1" "replicate 10 1"
      "reliable_solver (\<lambda>h. Some (replicate 12 1))" fresh_session "replicate 12 1" "[]"]
    reliable_solver_returns [of "\<lambda>h. Some (replicate 12 1)" fresh_session "replicate 10 1"]
  by (simp add: N_def reliable_solver_data)

text \<open>
  Claim C1. The start point is \<^verbatim>\<open>np.concatenate([phases, amplitudes])\<close> and
  \<^verbatim>\<open>evalAntenna\<close> reads the first \<open>N\<close> entries of a vector as phases and the rest as
  amplitudes, so the claim asks for the last \<open>N\<close> entries of the best vector as the first
  component of the result. Lines 156 and 157 return the first \<open>N\<close> entries as
  \<^verbatim>\<open>optimized_amplitudes\<close> and the rest as \<^verbatim>\<open>optimized_phases\<close>
  (\<open>optimize_antenna_array_slices\<close>). For a search that evaluates the start point and
  keeps it, on the target \<open>[2, 0]\<close> with a \<^verbatim>\<open>data_magnitude\<close> that fails, the first
  component of the result is the list of start phases and the second the list of start
  amplitudes.
\<close>

theorem optimize_antenna_array_first_is_phases:
  "optimize_antenna_array (reliable_solver (\<lambda>h. None)) (\<lambda>x0 maxiter. Ask x0 (\<lambda>v. Stop x0))
     fresh_session [2, 0] 100
   = Inr ((af_opt_phases_deg, af_opt_amps_v, [1]),
          solved_session fresh_session (af_opt_phases_deg @ af_opt_amps_v))"
proof -
  have t: "normalize_target [2, 0] = Inr [1, 0]"
    by (simp add: normalize_target_def)
  have "linalg_norm [1, 0] = 1"
    by (simp add: linalg_norm_def)
  with optimize_antenna_array_ask_once [OF t, of 100] show ?thesis
    by simp
qed

end
